theory Spec2Isabelle
  imports Main
begin

section \<open>Strings, character classes and the identity attribute\<close>

text \<open>
  A Python \<open>str\<close> is a sequence of Unicode code points; it is modelled as a list of
  natural numbers (\<open>ord\<close> of each character), so that the character ranges the
  regular expressions of the translators mention (\<open>\u3040-\u309F\<close>, ...) are
  arithmetic on code points. \<open>py\<close> reads an ASCII literal.

  \<open>is_space\<close> is the class \<open>\s\<close> of \<open>re\<close> on \<open>str\<close> patterns (the code points for
  which \<open>str.isspace\<close> holds, also what \<open>str.strip\<close> removes), \<open>is_digit\<close> the class
  \<open>\d\<close> (Unicode category Nd: 66 runs of ten consecutive digits, each starting at the
  code point of its zero), and \<open>ci_eq p c\<close> the comparison \<open>re.IGNORECASE\<close> makes between
  a literal \<open>p\<close> of the pattern and a character \<open>c\<close> of the text: equal simple
  lower-case mappings, with the two extra equivalences of \<open>re\<close> for \<open>i\<close> (dotless i) and
  \<open>s\<close> (long s). \<open>uni_lower\<close> lists the code points whose lower case is an ASCII
  letter; the patterns only hold ASCII letters and uncased characters.
\<close>

type_synonym pystr = "nat list"

definition py :: "string \<Rightarrow> pystr" where
  "py s = map of_char s"

definition is_space :: "nat \<Rightarrow> bool" where
  "is_space c \<longleftrightarrow>
     (9 \<le> c \<and> c \<le> 13) \<or> (28 \<le> c \<and> c \<le> 32) \<or> c = 0x85 \<or> c = 0xA0 \<or> c = 0x1680 \<or>
     (0x2000 \<le> c \<and> c \<le> 0x200A) \<or> c = 0x2028 \<or> c = 0x2029 \<or> c = 0x202F \<or>
     c = 0x205F \<or> c = 0x3000"

definition nd_zeros :: "nat list" where
  "nd_zeros = [48, 1632, 1776, 1984, 2406, 2534, 2662, 2790, 2918, 3046, 3174, 3302, 3430,
     3558, 3664, 3792, 3872, 4160, 4240, 6112, 6160, 6470, 6608, 6784, 6800, 6992, 7088, 7232,
     7248, 42528, 43216, 43264, 43472, 43504, 43600, 44016, 65296, 66720, 68912, 69734, 69872,
     69942, 70096, 70384, 70736, 70864, 71248, 71360, 71472, 71904, 72016, 72784, 73040, 73120,
     92768, 92864, 93008, 120782, 120792, 120802, 120812, 120822, 123200, 123632, 125264,
     130032]"

definition is_digit :: "nat \<Rightarrow> bool" where
  "is_digit c \<longleftrightarrow> list_ex (\<lambda>z. z \<le> c \<and> c < z + 10) nd_zeros"

definition uni_lower :: "nat \<Rightarrow> nat" where
  "uni_lower c = (if 65 \<le> c \<and> c \<le> 90 then c + 32
                  else if c = 0x130 then 0x69 else if c = 0x212A then 0x6B else c)"

definition ci_eq :: "nat \<Rightarrow> nat \<Rightarrow> bool" where
  "ci_eq p c \<longleftrightarrow>
     (let lo = uni_lower p
      in uni_lower c = lo \<or> (lo = 0x69 \<and> c = 0x131) \<or> (lo = 0x73 \<and> c = 0x17F))"

text \<open>
  A literal of a pattern compiled with \<open>re.IGNORECASE\<close>, matched at the start of the text;
  the result is the text after it.
\<close>

fun match_lit_ci :: "pystr \<Rightarrow> pystr \<Rightarrow> pystr option" where
  "match_lit_ci [] s = Some s"
| "match_lit_ci (p # ps) [] = None"
| "match_lit_ci (p # ps) (c # cs) = (if ci_eq p c then match_lit_ci ps cs else None)"

subsection \<open>\<open>DATA_LINE_ATTR_PATTERN\<close>\<close>

text \<open>
  The pattern is
  \<^verbatim>\<open>data-line\s*=\s*(?:\\?["'])?(?P<line>\d+)(?:\\?["'])?\<close> with \<open>re.IGNORECASE\<close>.
  Read at one start position it leaves the backtracking matcher no choice: \<open>\s*\<close> is
  followed by \<open>=\<close> or by a quote, a backslash or a digit, none of them white space; the
  optional quote group \<open>(?:\\?["'])?\<close> (\<open>opt_quote\<close>) takes a backslash only when a quote
  follows it, and skipping a group that could match leaves a quote or a backslash where a
  digit is required; \<open>\d+\<close> is greedy and everything after it may match the empty string.
  \<open>match_attr s\<close> is the match at the start of \<open>s\<close>: the group \<open>line\<close> and the text
  after the match.
\<close>

definition is_quote :: "nat \<Rightarrow> bool" where
  "is_quote c \<longleftrightarrow> c = 34 \<or> c = 39"

fun opt_quote :: "pystr \<Rightarrow> pystr" where
  "opt_quote (c # d # r) =
     (if c = 92 \<and> is_quote d then r else if is_quote c then d # r else c # d # r)"
| "opt_quote [c] = (if is_quote c then [] else [c])"
| "opt_quote [] = []"

definition attr_tail :: "pystr \<Rightarrow> (pystr \<times> pystr) option" where
  "attr_tail r =
     (case dropWhile is_space r of
        [] \<Rightarrow> None
      | e # r2 \<Rightarrow>
          if e \<noteq> 61 then None
          else let r3 = opt_quote (dropWhile is_space r2);
                   ds = takeWhile is_digit r3
               in if ds = [] then None
                  else Some (ds, opt_quote (dropWhile is_digit r3)))"

definition match_attr :: "pystr \<Rightarrow> (pystr \<times> pystr) option" where
  "match_attr s =
     (case match_lit_ci (py ''data-line'') s of
        None \<Rightarrow> None
      | Some r \<Rightarrow> attr_tail r)"

subsection \<open>\<open>normalize_data_line_attribute\<close>\<close>

text \<open>
  \<open>DATA_LINE_ATTR_PATTERN.sub\<close> scans the text from the left: where the pattern matches,
  the match is replaced by \<open>data-line="N"\<close> (\<open>canonical_attr\<close>, \<open>N\<close> the group
  \<open>line\<close>) and the scan goes on after the match; elsewhere the character is copied. A
  match is never empty, so the scan ends.
\<close>

definition canonical_attr :: "pystr \<Rightarrow> pystr" where
  "canonical_attr ds = py ''data-line='' @ [34] @ ds @ [34]"

lemma match_lit_ci_length:
  "match_lit_ci l s = Some r \<Longrightarrow> length s = length l + length r"
  by (induction l s rule: match_lit_ci.induct) (auto split: if_splits)

lemma opt_quote_length: "length (opt_quote s) \<le> length s"
  by (induction s rule: opt_quote.induct) auto

lemma attr_tail_length: "attr_tail r = Some (ds, rest) \<Longrightarrow> length rest < length r"
proof -
  assume a: "attr_tail r = Some (ds, rest)"
  then obtain r2 where d: "dropWhile is_space r = 61 # r2"
    by (auto simp: attr_tail_def split: list.splits if_splits)
  let ?r3 = "opt_quote (dropWhile is_space r2)"
  from a d have rest: "rest = opt_quote (dropWhile is_digit ?r3)"
    by (auto simp: attr_tail_def Let_def split: if_splits)
  have "length rest \<le> length (dropWhile is_digit ?r3)"
    unfolding rest by (rule opt_quote_length)
  also have "\<dots> \<le> length ?r3" by (rule length_dropWhile_le)
  also have "\<dots> \<le> length (dropWhile is_space r2)" by (rule opt_quote_length)
  also have "\<dots> \<le> length r2" by (rule length_dropWhile_le)
  also have "\<dots> < length (dropWhile is_space r)" using d by simp
  also have "\<dots> \<le> length r" by (rule length_dropWhile_le)
  finally show ?thesis .
qed

lemma match_attr_length: "match_attr s = Some (ds, rest) \<Longrightarrow> length rest < length s"
proof -
  assume a: "match_attr s = Some (ds, rest)"
  then obtain r where r: "match_lit_ci (py ''data-line'') s = Some r" and t: "attr_tail r = Some (ds, rest)"
    by (cases "match_lit_ci (py ''data-line'') s") (simp_all add: match_attr_def)
  from match_lit_ci_length[OF r] attr_tail_length[OF t] show ?thesis by simp
qed

function normalize_data_line_attribute :: "pystr \<Rightarrow> pystr" where
  "normalize_data_line_attribute [] = []"
| "normalize_data_line_attribute (c # cs) =
     (case match_attr (c # cs) of
        Some (ds, rest) \<Rightarrow> canonical_attr ds @ normalize_data_line_attribute rest
      | None \<Rightarrow> c # normalize_data_line_attribute cs)"
  by pat_completeness auto
termination
proof (relation "measure length")
  show "wf (measure length)" by simp
next
  fix c cs x2 ds rest
  assume "match_attr (c # cs) = Some x2" "(ds, rest) = x2"
  then have "match_attr (c # cs) = Some (ds, rest)" by simp
  from match_attr_length[OF this] show "(rest, c # cs) \<in> measure length" by simp
next
  fix c cs
  show "(cs, c # cs) \<in> measure length" by simp
qed

subsection \<open>Text predicates of the validity check\<close>

definition strip :: "pystr \<Rightarrow> pystr" where
  "strip s = rev (dropWhile is_space (rev (dropWhile is_space s)))"

definition in_range :: "nat \<Rightarrow> nat \<Rightarrow> nat \<Rightarrow> bool" where
  "in_range lo hi c \<longleftrightarrow> lo \<le> c \<and> c \<le> hi"

definition is_kana :: "nat \<Rightarrow> bool" where
  "is_kana c \<longleftrightarrow> in_range 0x3040 0x309F c \<or> in_range 0x30A0 0x30FF c"

definition is_cjk :: "nat \<Rightarrow> bool" where
  "is_cjk c \<longleftrightarrow> in_range 0x4E00 0x9FFF c"

definition is_japanese :: "pystr \<Rightarrow> bool" where
  "is_japanese text \<longleftrightarrow> list_ex (\<lambda>c. is_kana c \<or> is_cjk c) text"

definition is_pure_chinese :: "pystr \<Rightarrow> bool" where
  "is_pure_chinese text \<longleftrightarrow>
     (let cleaned = filter (\<lambda>c. \<not> (is_space c \<or> in_range 0x3000 0x303F c \<or>
                                        in_range 0xFF00 0xFFEF c)) text
      in if cleaned = [] then False else list_all is_cjk cleaned)"

fun match_lit :: "pystr \<Rightarrow> pystr \<Rightarrow> pystr option" where
  "match_lit [] s = Some s"
| "match_lit (p # ps) [] = None"
| "match_lit (p # ps) (c # cs) = (if p = c then match_lit ps cs else None)"

definition nonspace_run :: "pystr \<Rightarrow> pystr option" where
  "nonspace_run r =
     (if takeWhile (\<lambda>c. \<not> is_space c) r = [] then None
      else Some (dropWhile (\<lambda>c. \<not> is_space c) r))"

definition match_url :: "pystr \<Rightarrow> pystr option" where
  "match_url s =
     (case match_lit (py ''http'') s of
        None \<Rightarrow> None
      | Some r \<Rightarrow>
          (case match_lit (py ''://'') (case r of c # t \<Rightarrow> if c = 115 then t else r | [] \<Rightarrow> r) of
             None \<Rightarrow> None
           | Some r2 \<Rightarrow> nonspace_run r2))"

definition match_www :: "pystr \<Rightarrow> pystr option" where
  "match_www s =
     (case match_lit (py ''www.'') s of None \<Rightarrow> None | Some r \<Rightarrow> nonspace_run r)"

definition is_lower :: "nat \<Rightarrow> bool" where
  "is_lower c \<longleftrightarrow> in_range 97 122 c"

definition is_alpha :: "nat \<Rightarrow> bool" where
  "is_alpha c \<longleftrightarrow> in_range 97 122 c \<or> in_range 65 90 c"

definition is_alnum :: "nat \<Rightarrow> bool" where
  "is_alnum c \<longleftrightarrow> is_alpha c \<or> in_range 48 57 c"

definition is_local :: "nat \<Rightarrow> bool" where
  "is_local c \<longleftrightarrow> is_alnum c \<or> c \<in> set (py ''._%+-'')"

definition is_dom :: "nat \<Rightarrow> bool" where
  "is_dom c \<longleftrightarrow> is_alnum c \<or> c \<in> set (py ''.-'')"

fun email_tld :: "pystr \<Rightarrow> nat \<Rightarrow> pystr option" where
  "email_tld r 0 = None"
| "email_tld r (Suc k) =
     (if r ! Suc k = 46 \<and> 2 \<le> length (takeWhile is_alpha (drop (Suc (Suc k)) r))
      then Some (dropWhile is_alpha (drop (Suc (Suc k)) r))
      else email_tld r k)"

definition match_email :: "pystr \<Rightarrow> pystr option" where
  "match_email s =
     (if takeWhile is_local s = [] then None
      else case dropWhile is_local s of
             [] \<Rightarrow> None
           | a # r \<Rightarrow>
               if a \<noteq> 64 then None
               else email_tld r (length (takeWhile is_dom r) - 1))"

function sub_remove :: "(pystr \<Rightarrow> pystr option) \<Rightarrow> pystr \<Rightarrow> pystr" where
  "sub_remove m [] = []"
| "sub_remove m (c # cs) =
     (case m (c # cs) of
        None \<Rightarrow> c # sub_remove m cs
      | Some r \<Rightarrow> if length r < length (c # cs) then sub_remove m r else c # sub_remove m cs)"
  by pat_completeness auto
termination
  by (relation "measure (\<lambda>(m, s). length s)") auto

fun has_run :: "(nat \<Rightarrow> bool) \<Rightarrow> nat \<Rightarrow> nat \<Rightarrow> pystr \<Rightarrow> bool" where
  "has_run P n k [] = (n \<le> k)"
| "has_run P n k (c # cs) = (if n \<le> k then True else has_run P n (if P c then Suc k else 0) cs)"


definition has_english_or_japanese :: "pystr \<Rightarrow> bool" where
  "has_english_or_japanese text \<longleftrightarrow>
     (if list_ex is_kana text then True
      else has_run is_alpha 2 0 (sub_remove match_email (sub_remove match_url text)))"

definition has_english :: "pystr \<Rightarrow> bool" where
  "has_english text \<longleftrightarrow>
     has_run is_alpha 2 0 (sub_remove match_email (sub_remove match_url text))"

subsection \<open>Glossary entries and their validity\<close>

type_synonym entry = "pystr \<rightharpoonup> pystr"

definition validate_translation_entry :: "entry \<Rightarrow> bool" where
  "validate_translation_entry entry =
     (case (entry (py ''jp''), entry (py ''zh'')) of
        (Some jp, Some zh) \<Rightarrow>
          if strip jp = [] \<or> strip zh = [] then False
          else if \<not> is_japanese (strip jp) then False
          else if \<not> is_pure_chinese (strip zh) then False
          else if has_english_or_japanese (strip zh) then False
          else True
      | _ \<Rightarrow> False)"

definition validate_sound_entry :: "entry \<Rightarrow> bool" where
  "validate_sound_entry entry =
     (case (entry (py ''sound_jp''), entry (py ''sound_zh'')) of
        (Some jp, Some zh) \<Rightarrow>
          if strip jp = [] \<or> strip zh = [] then False
          else if \<not> is_japanese (strip jp) then False
          else if \<not> is_pure_chinese (strip zh) then False
          else if has_english_or_japanese (strip zh) then False
          else True
      | _ \<Rightarrow> False)"

definition validate_translation_entry_en :: "entry \<Rightarrow> bool" where
  "validate_translation_entry_en entry =
     (case (entry (py ''en''), entry (py ''zh'')) of
        (Some en, Some zh) \<Rightarrow>
          if strip en = [] \<or> strip zh = [] then False
          else if \<not> is_pure_chinese (strip zh) then False
          else if has_english (strip zh) then False
          else True
      | _ \<Rightarrow> False)"

subsection \<open>Merging glossaries\<close>

definition source_terms :: "pystr \<Rightarrow> entry list \<Rightarrow> pystr set" where
  "source_terms k items = set (List.map_filter (\<lambda>item. item k) items)"

fun merge_loop ::
  "pystr \<Rightarrow> (entry \<Rightarrow> bool) \<Rightarrow> pystr set \<Rightarrow> entry list \<Rightarrow> entry list \<Rightarrow> entry list" where
  "merge_loop k valid existing merged [] = merged"
| "merge_loop k valid existing merged (item # new) =
     (if valid item then
        (case item k of
           Some term \<Rightarrow>
             if term \<notin> existing
             then merge_loop k valid (insert term existing) (merged @ [item]) new
             else merge_loop k valid existing merged new
         | None \<Rightarrow> merge_loop k valid existing merged new)
      else merge_loop k valid existing merged new)"

definition merge_by :: "pystr \<Rightarrow> (entry \<Rightarrow> bool) \<Rightarrow> entry list \<Rightarrow> entry list \<Rightarrow> entry list" where
  "merge_by k valid original new = merge_loop k valid (source_terms k original) original new"

definition merge_dictionaries :: "entry list \<Rightarrow> entry list \<Rightarrow> entry list" where
  "merge_dictionaries = merge_by (py ''jp'') validate_translation_entry"

definition merge_dictionaries_en :: "entry list \<Rightarrow> entry list \<Rightarrow> entry list" where
  "merge_dictionaries_en = merge_by (py ''en'') validate_translation_entry_en"

definition merge_sound_dictionaries :: "entry list \<Rightarrow> entry list \<Rightarrow> entry list" where
  "merge_sound_dictionaries = merge_by (py ''sound_jp'') validate_sound_entry"

subsection \<open>Text between the paragraph tags\<close>

fun split_at_first :: "(pystr \<Rightarrow> pystr option) \<Rightarrow> pystr \<Rightarrow> (pystr \<times> pystr) option" where
  "split_at_first m [] = None"
| "split_at_first m (c # cs) =
     (case m (c # cs) of
        Some r \<Rightarrow> Some ([], r)
      | None \<Rightarrow> (case split_at_first m cs of
                   Some (b, a) \<Rightarrow> Some (c # b, a)
                 | None \<Rightarrow> None))"

definition after_gt :: "pystr \<Rightarrow> pystr option" where
  "after_gt r = (case dropWhile (\<lambda>c. c \<noteq> 62) r of [] \<Rightarrow> None | g # r2 \<Rightarrow> Some r2)"

definition match_p_text :: "pystr \<Rightarrow> pystr option" where
  "match_p_text s =
     (case match_lit (py ''<p'') s of
        None \<Rightarrow> None
      | Some r \<Rightarrow>
          (case after_gt r of
             None \<Rightarrow> None
           | Some r2 \<Rightarrow> map_option fst (split_at_first (match_lit (py ''</p>'')) r2)))"

fun extract_text_from_tags :: "pystr \<Rightarrow> pystr" where
  "extract_text_from_tags [] = []"
| "extract_text_from_tags (c # cs) =
     (case match_p_text (c # cs) of
        Some t \<Rightarrow> t
      | None \<Rightarrow> extract_text_from_tags cs)"

fun is_substr :: "pystr \<Rightarrow> pystr \<Rightarrow> bool" where
  "is_substr p [] = (p = [])"
| "is_substr p (c # cs) = (match_lit p (c # cs) \<noteq> None \<or> is_substr p cs)"

subsection \<open>Random draws\<close>

fun random_sample :: "(nat \<Rightarrow> nat) \<Rightarrow> 'a list \<Rightarrow> nat \<Rightarrow> 'a list" where
  "random_sample rnd xs 0 = []"
| "random_sample rnd xs (Suc k) =
     (if xs = [] then []
      else xs ! (rnd 0 mod length xs) #
           random_sample (\<lambda>n. rnd (Suc n))
             (take (rnd 0 mod length xs) xs @ drop (Suc (rnd 0 mod length xs)) xs) k)"

definition zero_draws :: "nat \<Rightarrow> nat" where
  "zero_draws n = 0"

subsection \<open>\<open>select_relevant_translations\<close>\<close>

definition jp_value :: "entry \<Rightarrow> pystr" where
  "jp_value entry = strip (case entry (py ''jp'') of Some v \<Rightarrow> v | None \<Rightarrow> [])"

fun relevant_pass ::
  "pystr \<Rightarrow> pystr \<Rightarrow> entry list \<Rightarrow> pystr set \<Rightarrow> entry list \<Rightarrow> entry list \<times> pystr set" where
  "relevant_pass batch_text batch_raw relevant seen_jp [] = (relevant, seen_jp)"
| "relevant_pass batch_text batch_raw relevant seen_jp (entry # rest) =
     (if \<not> validate_translation_entry entry
      then relevant_pass batch_text batch_raw relevant seen_jp rest
      else if jp_value entry = [] \<or> jp_value entry \<in> seen_jp
      then relevant_pass batch_text batch_raw relevant seen_jp rest
      else if is_substr (jp_value entry) batch_text \<or> is_substr (jp_value entry) batch_raw
      then relevant_pass batch_text batch_raw (relevant @ [entry])
             (insert (jp_value entry) seen_jp) rest
      else relevant_pass batch_text batch_raw relevant seen_jp rest)"

definition remaining_entries :: "pystr set \<Rightarrow> entry list \<Rightarrow> entry list" where
  "remaining_entries seen_jp all_translations =
     filter (\<lambda>entry. validate_translation_entry entry \<and>
                     \<not> (jp_value entry = [] \<or> jp_value entry \<in> seen_jp)) all_translations"

definition select_relevant_translations ::
  "(nat \<Rightarrow> nat) \<Rightarrow> pystr list \<Rightarrow> entry list \<Rightarrow> int \<Rightarrow> entry list" where
  "select_relevant_translations rnd batch_lines all_translations target_count =
     (if all_translations = [] then []
      else
        let batch_raw = concat batch_lines;
            batch_text = concat (map extract_text_from_tags batch_lines);
            (relevant, seen_jp) = relevant_pass batch_text batch_raw [] {} all_translations
        in if int (length relevant) < target_count
           then
             let remaining = remaining_entries seen_jp all_translations
             in if remaining \<noteq> []
                then
                  let needed = min (target_count - int (length relevant)) (int (length remaining))
                  in if 0 < needed
                     then relevant @ random_sample rnd remaining (nat needed)
                     else relevant
                else relevant
           else relevant)"


definition source_term :: "pystr \<Rightarrow> entry \<Rightarrow> pystr option" where
  "source_term k entry = entry k"

subsection \<open>\<open>P_TAG_WITH_LINE_PATTERN\<close>\<close>

text \<open>
  The pattern is
  \<^verbatim>\<open><p[^>]*data-line\s*=\s*(?:\\?["'])?(?P<line>\d+)(?:\\?["'])?[^>]*>.*?</p>\<close>
  with \<open>re.DOTALL | re.IGNORECASE\<close>. At one start position: after \<open><p\<close> the greedy
  \<open>[^>]*\<close> takes the whole run \<open>R\<close> of characters other than \<open>>\<close> and gives characters
  back one at a time, so the attribute is matched at the last position of \<open>R\<close> where it
  can be (\<open>last_attr\<close>; no character of the attribute is \<open>>\<close>, so it lies within \<open>R\<close>).
  What follows the attribute does not depend on that position: the rest of \<open>R\<close>, the
  \<open>>\<close> that ends it, and the lazy \<open>.*?\<close> up to the first \<open></p>\<close>. \<open>match_ptag s\<close> gives the
  group \<open>line\<close>, the matched text and the text after the match.
\<close>

fun last_attr :: "pystr \<Rightarrow> pystr option" where
  "last_attr [] = None"
| "last_attr (c # cs) =
     (case last_attr cs of
        Some ds \<Rightarrow> Some ds
      | None \<Rightarrow> map_option fst (match_attr (c # cs)))"

definition match_ptag :: "pystr \<Rightarrow> (pystr \<times> pystr \<times> pystr) option" where
  "match_ptag s =
     (case match_lit_ci (py ''<p'') s of
        None \<Rightarrow> None
      | Some r \<Rightarrow>
          (case after_gt r of
             None \<Rightarrow> None
           | Some r2 \<Rightarrow>
               (case last_attr (takeWhile (\<lambda>c. c \<noteq> 62) r) of
                  None \<Rightarrow> None
                | Some ds \<Rightarrow>
                    (case split_at_first (match_lit_ci (py ''</p>'')) r2 of
                       None \<Rightarrow> None
                     | Some (body, rest) \<Rightarrow>
                         Some (ds, take (length s - length rest) s, rest)))))"

lemma split_at_first_length:
  assumes "\<And>x r. m x = Some r \<Longrightarrow> length r \<le> length x"
  shows "split_at_first m s = Some (b, a) \<Longrightarrow> length a \<le> length s"
proof (induction s arbitrary: b a)
  case Nil
  then show ?case by simp
next
  case (Cons c cs)
  show ?case
  proof (cases "m (c # cs)")
    case None
    with Cons.prems obtain b' where "split_at_first m cs = Some (b', a)"
      by (auto split: option.splits)
    from Cons.IH[OF this] show ?thesis by simp
  next
    case (Some r)
    with Cons.prems have "a = r" by simp
    with assms[OF Some] show ?thesis by simp
  qed
qed

lemma after_gt_length: "after_gt r = Some r2 \<Longrightarrow> length r2 < length r"
proof -
  assume "after_gt r = Some r2"
  then obtain g where "dropWhile (\<lambda>c. c \<noteq> 62) r = g # r2"
    by (auto simp: after_gt_def split: list.splits)
  then have "length r2 < length (dropWhile (\<lambda>c. c \<noteq> 62) r)" by simp
  also have "\<dots> \<le> length r" by (rule length_dropWhile_le)
  finally show ?thesis .
qed

lemma match_ptag_length:
  assumes "match_ptag s = Some (ds, m, rest)"
  shows "length rest < length s"
proof -
  from assms obtain r r2 body where
    r: "match_lit_ci (py ''<p'') s = Some r" and r2: "after_gt r = Some r2"
    and sp: "split_at_first (match_lit_ci (py ''</p>'')) r2 = Some (body, rest)"
    by (auto simp: match_ptag_def split: option.splits)
  have "length rest \<le> length r2"
    using sp by (rule split_at_first_length[rotated]) (auto dest: match_lit_ci_length)
  also have "\<dots> < length r" using r2 by (rule after_gt_length)
  also have "\<dots> \<le> length s" using match_lit_ci_length[OF r] by simp
  finally show ?thesis .
qed

text \<open>
  \<open>finditer\<close> scans from the left and goes on after each match; \<open>ptag_finditer\<close> lists
  the group \<open>line\<close> and the matched text of every match, in order.
\<close>

function ptag_finditer :: "pystr \<Rightarrow> (pystr \<times> pystr) list" where
  "ptag_finditer [] = []"
| "ptag_finditer (c # cs) =
     (case match_ptag (c # cs) of
        None \<Rightarrow> ptag_finditer cs
      | Some (ds, m, rest) \<Rightarrow> (ds, m) # ptag_finditer rest)"
  by pat_completeness auto
termination
proof (relation "measure length")
  show "wf (measure length)" by simp
next
  fix c cs
  show "(cs, c # cs) \<in> measure length" by simp
next
  fix c cs x2 ds y m rest
  assume "match_ptag (c # cs) = Some x2" "(ds, y) = x2" "(m, rest) = y"
  then have "match_ptag (c # cs) = Some (ds, m, rest)" by simp
  from match_ptag_length[OF this] show "(rest, c # cs) \<in> measure length" by simp
qed

subsection \<open>Identity tokens\<close>

text \<open>
  \<open>int\<close> of a string of decimal digits of any script: each digit counts its offset from the
  zero of its run. Since CPython 3.11 \<open>int\<close> raises \<open>ValueError\<close> on a string of more than
  \<open>sys.get_int_max_str_digits()\<close> digits, 4300 unless configured otherwise, leading zeros
  included; \<open>token_of\<close> has that error as a value. \<open>extract_line_number\<close> is
  \<open>DATA_LINE_ATTR_PATTERN.search\<close> followed by \<open>int\<close>: the leftmost match, or the sentinel
  \<open>-1\<close>.
\<close>

datatype error = ValueError | ApiFailure

definition digit_value :: "nat \<Rightarrow> nat" where
  "digit_value c = (case filter (\<lambda>z. z \<le> c \<and> c < z + 10) nd_zeros of z # _ \<Rightarrow> c - z | [] \<Rightarrow> 0)"

definition digits_value :: "pystr \<Rightarrow> int" where
  "digits_value ds = int (foldl (\<lambda>n d. 10 * n + digit_value d) 0 ds)"

definition int_max_str_digits :: nat where
  "int_max_str_digits = 4300"

definition token_of :: "pystr \<Rightarrow> error + int" where
  "token_of ds = (if int_max_str_digits < length ds then Inl ValueError else Inr (digits_value ds))"

fun search_attr :: "pystr \<Rightarrow> pystr option" where
  "search_attr [] = None"
| "search_attr (c # cs) =
     (case match_attr (c # cs) of
        Some (ds, rest) \<Rightarrow> Some ds
      | None \<Rightarrow> search_attr cs)"

definition extract_line_number :: "pystr \<Rightarrow> error + int" where
  "extract_line_number line =
     (case search_attr line of Some ds \<Rightarrow> token_of ds | None \<Rightarrow> Inr (- 1))"

subsection \<open>Which lines need translation\<close>

definition contains_japanese :: "pystr \<Rightarrow> bool" where
  "contains_japanese text \<longleftrightarrow> list_ex is_kana text"

definition contains_english :: "pystr \<Rightarrow> bool" where
  "contains_english text \<longleftrightarrow>
     has_run is_lower 3 0
       (sub_remove match_email (sub_remove match_www (sub_remove match_url text)))"

definition residue_jp :: "pystr \<Rightarrow> bool" where
  "residue_jp text_content \<longleftrightarrow> contains_japanese text_content \<or> contains_english text_content"

definition needs_translation :: "pystr \<Rightarrow> bool" where
  "needs_translation line \<longleftrightarrow>
     (let text_content = extract_text_from_tags line
      in if text_content = [] \<or> strip text_content = [] then False
         else residue_jp text_content)"

type_synonym batch_item = "nat \<times> pystr \<times> int"

text \<open>
  \<open>get_translation_lines\<close>: the loop over \<open>enumerate(lines)\<close>, from index \<open>idx\<close> on. The
  first line that needs translation and whose identity attribute \<open>int\<close> refuses ends it
  with that error.
\<close>

fun translation_lines_from ::
  "(pystr \<Rightarrow> bool) \<Rightarrow> nat \<Rightarrow> pystr list \<Rightarrow> error + batch_item list" where
  "translation_lines_from needs idx [] = Inr []"
| "translation_lines_from needs idx (line # rest) =
     (if needs line
      then (case extract_line_number line of
              Inl err \<Rightarrow> Inl err
            | Inr html_line_num \<Rightarrow>
                (case translation_lines_from needs (Suc idx) rest of
                   Inl err \<Rightarrow> Inl err
                 | Inr items \<Rightarrow> Inr ((idx, line, html_line_num) # items)))
      else translation_lines_from needs (Suc idx) rest)"

definition get_translation_lines :: "pystr list \<Rightarrow> error + batch_item list" where
  "get_translation_lines lines = translation_lines_from needs_translation 0 lines"

subsection \<open>The translated map and the reinsertion loop\<close>

text \<open>
  The map of \<open>process_file\<close>: every match of \<open>P_TAG_WITH_LINE_PATTERN\<close> in the translated
  content, in the order of the text, is stored normalised under its token; a later
  assignment to the same key replaces the earlier one. A unit whose line number \<open>int\<close>
  refuses ends the loop with that error, and no map is built.
\<close>

fun build_map :: "(int \<rightharpoonup> pystr) \<Rightarrow> (pystr \<times> pystr) list \<Rightarrow> error + (int \<rightharpoonup> pystr)" where
  "build_map m [] = Inr m"
| "build_map m ((ds, html) # units) =
     (case token_of ds of
        Inl err \<Rightarrow> Inl err
      | Inr line_num \<Rightarrow> build_map (m(line_num \<mapsto> normalize_data_line_attribute html)) units)"

definition line_translation_map :: "pystr \<Rightarrow> error + (int \<rightharpoonup> pystr)" where
  "line_translation_map translated_content = build_map Map.empty (ptag_finditer translated_content)"

definition with_newline :: "pystr \<Rightarrow> pystr" where
  "with_newline translated_line =
     (if translated_line \<noteq> [] \<and> last translated_line = 10 then translated_line
      else translated_line @ [10])"

text \<open>
  The loop over the batch. The state is the in-memory document and the counters
  \<open>batch_success\<close> and \<open>batch_failed\<close>; \<open>residue\<close> is the language check run on the
  translated payload (\<open>residue_jp\<close> in \<open>process_file\<close>). The indices come from \<open>enumerate\<close> over the same list,
  whose length never changes, so the assignment is always in range.
\<close>

fun reinsert ::
  "(pystr \<Rightarrow> bool) \<Rightarrow> (int \<rightharpoonup> pystr) \<Rightarrow> batch_item list \<Rightarrow>
     pystr list \<times> nat \<times> nat \<Rightarrow> pystr list \<times> nat \<times> nat" where
  "reinsert residue m [] st = st"
| "reinsert residue m ((original_idx, line, html_line_num) # rest) (lines, batch_success, batch_failed) =
     (if html_line_num = - 1 then reinsert residue m rest (lines, batch_success, batch_failed)
      else case m html_line_num of
             None \<Rightarrow> reinsert residue m rest (lines, batch_success, batch_failed + 1)
           | Some mapped \<Rightarrow>
               if strip (normalize_data_line_attribute mapped) = []
               then reinsert residue m rest (lines, batch_success, batch_failed + 1)
               else if residue (extract_text_from_tags
                                  (with_newline (normalize_data_line_attribute mapped)))
               then reinsert residue m rest
                      (lines[original_idx := with_newline (normalize_data_line_attribute mapped)],
                       batch_success, batch_failed + 1)
               else reinsert residue m rest
                      (lines[original_idx := with_newline (normalize_data_line_attribute mapped)],
                       batch_success + 1, batch_failed))"

definition replacement :: "(int \<rightharpoonup> pystr) \<Rightarrow> int \<Rightarrow> pystr option" where
  "replacement m html_line_num =
     (if html_line_num = - 1 then None
      else case m html_line_num of
             None \<Rightarrow> None
           | Some mapped \<Rightarrow>
               if strip (normalize_data_line_attribute mapped) = [] then None
               else Some (with_newline (normalize_data_line_attribute mapped)))"

text \<open>
  The batch \<open>batch_idx\<close> of \<open>process_file\<close>: the slice
  \<open>japanese_lines[start_idx:end_idx]\<close>; and its lines that have an identity token, the ones
  the two failure paths count.
\<close>

definition batch_of :: "batch_item list \<Rightarrow> nat \<Rightarrow> nat \<Rightarrow> batch_item list" where
  "batch_of japanese_lines size_of_batch batch_idx =
     take size_of_batch (drop (batch_idx * size_of_batch) japanese_lines)"

definition countable :: "batch_item list \<Rightarrow> batch_item list" where
  "countable batch = filter (\<lambda>(idx, line, num). num \<noteq> - 1) batch"

subsection \<open>Writing the document and reading it back\<close>

text \<open>
  \<open>writelines\<close> writes the concatenation of the entries; \<open>readlines\<close> of a file opened in
  text mode with the default \<open>newline=None\<close> translates \<open>\r\n\<close> and \<open>\r\<close> to \<open>\n\<close> and splits
  after every \<open>\n\<close>, keeping it. (On a platform whose line separator is \<open>\n\<close>; elsewhere
  the write translates \<open>\n\<close> to the separator and the read translates it back.)
\<close>

fun universal_newlines :: "pystr \<Rightarrow> pystr" where
  "universal_newlines [] = []"
| "universal_newlines [c] = (if c = 13 then [10] else [c])"
| "universal_newlines (c # d # r) =
     (if c = 13 \<and> d = 10 then 10 # universal_newlines r
      else if c = 13 then 10 # universal_newlines (d # r)
      else c # universal_newlines (d # r))"

fun split_lines :: "pystr \<Rightarrow> pystr \<Rightarrow> pystr list" where
  "split_lines cur [] = (if cur = [] then [] else [cur])"
| "split_lines cur (c # r) =
     (if c = 10 then (cur @ [10]) # split_lines [] r else split_lines (cur @ [c]) r)"

definition readlines :: "pystr \<Rightarrow> pystr list" where
  "readlines content = split_lines [] (universal_newlines content)"

definition writelines :: "pystr list \<Rightarrow> pystr" where
  "writelines lines = concat lines"

text \<open>
  What the loop does to one line, read off its branches: \<open>replacement\<close> is the
  markup it writes for a token (\<open>None\<close> when it writes nothing), \<open>counted_success\<close> and
  \<open>counted_failed\<close> the counter it increments.
\<close>

definition counted_success :: "(pystr \<Rightarrow> bool) \<Rightarrow> (int \<rightharpoonup> pystr) \<Rightarrow> batch_item \<Rightarrow> bool" where
  "counted_success residue m item =
     (case replacement m (snd (snd item)) of
        None \<Rightarrow> False
      | Some new \<Rightarrow> \<not> residue (extract_text_from_tags new))"

definition counted_failed :: "(pystr \<Rightarrow> bool) \<Rightarrow> (int \<rightharpoonup> pystr) \<Rightarrow> batch_item \<Rightarrow> bool" where
  "counted_failed residue m item =
     (snd (snd item) \<noteq> - 1 \<and>
      (case replacement m (snd (snd item)) of
         None \<Rightarrow> True
       | Some new \<Rightarrow> residue (extract_text_from_tags new)))"

definition write_back :: "(int \<rightharpoonup> pystr) \<Rightarrow> pystr list \<Rightarrow> batch_item \<Rightarrow> pystr list" where
  "write_back m lines item =
     (case replacement m (snd (snd item)) of
        None \<Rightarrow> lines
      | Some new \<Rightarrow> lines[fst item := new])"

text \<open>
  \<open>single_line\<close>: the only line break of the text, if any, is a final \<open>\n\<close>.
  \<open>doc_ok\<close>: the list is one that \<open>readlines\<close> can return, where every entry is a
  non-empty single line and every entry but the last ends with \<open>\n\<close>.
\<close>

definition single_line :: "pystr \<Rightarrow> bool" where
  "single_line l \<longleftrightarrow> 13 \<notin> set l \<and> 10 \<notin> set (butlast l)"

definition doc_ok :: "pystr list \<Rightarrow> bool" where
  "doc_ok ls \<longleftrightarrow>
     (\<forall>l\<in>set ls. l \<noteq> [] \<and> single_line l) \<and> (\<forall>l\<in>set (butlast ls). last l = 10)"

subsection \<open>Refusals\<close>

text \<open>
  \<open>is_refusal_response\<close> searches the response for six patterns with
  \<open>re.IGNORECASE\<close>; each is a sequence of single characters, literal or (the comma of the
  first two, ASCII or full-width) a class of two. \<open>match_seq\<close> matches such a sequence at
  the start of the text, \<open>search_seq\<close> anywhere in it.
\<close>

fun match_seq :: "nat list list \<Rightarrow> pystr \<Rightarrow> bool" where
  "match_seq [] s = True"
| "match_seq (alts # ps) [] = False"
| "match_seq (alts # ps) (c # cs) = (list_ex (\<lambda>p. ci_eq p c) alts \<and> match_seq ps cs)"

fun search_seq :: "nat list list \<Rightarrow> pystr \<Rightarrow> bool" where
  "search_seq ps [] = match_seq ps []"
| "search_seq ps (c # cs) = (match_seq ps (c # cs) \<or> search_seq ps cs)"

definition lit_seq :: "pystr \<Rightarrow> nat list list" where
  "lit_seq s = map (\<lambda>c. [c]) s"

definition refusal_patterns :: "nat list list list" where
  "refusal_patterns =
     [lit_seq [0x62B1, 0x6B49] @ [[44, 0xFF0C]] @ lit_seq [0x6211, 0x7121, 0x6CD5, 0x5354, 0x52A9],
      lit_seq [0x62B1, 0x6B49] @ [[44, 0xFF0C]] @ lit_seq [0x6211, 0x4E0D, 0x80FD, 0x5354, 0x52A9],
      lit_seq [0x7121, 0x6CD5, 0x5354, 0x52A9, 0x6EFF, 0x8DB3],
      lit_seq (py ''I cannot assist''),
      lit_seq (py ''I'm unable to''),
      lit_seq (py ''I can't help'')]"

definition is_refusal_response :: "pystr \<Rightarrow> bool" where
  "is_refusal_response response_text \<longleftrightarrow>
     list_ex (\<lambda>pattern. search_seq pattern response_text) refusal_patterns"

subsection \<open>The world of one file\<close>

text \<open>
  \<open>process_file\<close> threads its state through many calls. The state is a record: the
  in-memory document \<open>w_lines\<close> (the list \<open>lines\<close>), the in-memory glossaries, what the glossary files and the
  document file hold (\<open>json_file\<close>, \<open>sound_dict_file\<close>, \<open>txt_file\<close>: the value a load
  returns, a decode error having become the empty list), the entry of the progress
  tracker, the \<open>result\<close> dictionary, the running totals, and a trace of what was done
  outside the process: files read and written, sleeps, service calls, notices, and each
  call of the response parser.

  The environment is a record too: the service (\<open>api k prompt\<close> is the outcome of
  the \<open>k\<close>-th call made: an exception anywhere in the attempt, or the \<open>content\<close> of the
  first choice, which the client library types as optional), the random draws, which input
  or output operations raise (\<open>fault\<close>), the batch size, and the files as they are found.
  Three functions of the repository that no property here depends on are taken as they
  come: \<open>parse_response\<close> (regular expressions over \<open>json.loads\<close>; \<open>None\<close> when it, or the
  use of what it decoded, raises), the text of the prompt (\<open>create_prompt\<close>, over
  \<open>json.dumps\<close>) and \<open>sort_by_gojuon\<close>. Output to the console and the progress display
  are not part of the state and are taken not to raise.
\<close>

datatype io =
  ReadDoc | LoadDictFirst | LoadSoundFirst | LoadDict nat | LoadSound nat | WriteRequest nat
  | WriteRefusal nat | WriteResponse nat | SaveDict nat | ReloadSound nat | SaveSound nat
  | WriteDoc nat | WriteFailure nat

datatype event = Did io | Slept nat | Called nat | Notice nat | Parsed

datatype api_outcome = Raises | Returns "pystr option"

datatype status = Waiting | Processing | Completed | Failed | Skipped

datatype result_status = RSuccess | RPartial | RFailed | RSkipped

record progress =
  p_total :: nat
  p_translation_total :: nat
  p_skipped :: nat
  p_success :: nat
  p_failed :: nat
  p_pending :: nat
  p_dict_count :: nat
  p_status :: status

record result =
  r_total_lines :: nat
  r_japanese_lines :: nat
  r_success :: nat
  r_failed :: nat
  r_status :: result_status

record world =
  w_lines :: "pystr list"
  translation_dict_full :: "entry list"
  sound_dict_global :: "entry list"
  json_file :: "entry list"
  sound_dict_file :: "entry list"
  txt_file :: "pystr list"
  tracker :: progress
  result :: result
  total_success :: nat
  total_failed :: nat
  trace :: "event list"
  calls :: nat

record env =
  api :: "nat \<Rightarrow> pystr \<Rightarrow> api_outcome"
  parse_response :: "pystr \<Rightarrow> (entry list \<times> entry list \<times> pystr) option"
  create_prompt :: "pystr list \<Rightarrow> entry list \<Rightarrow> entry list \<Rightarrow> pystr"
  sort_by_gojuon :: "entry list \<Rightarrow> entry list"
  draws :: "nat \<Rightarrow> nat \<Rightarrow> nat"
  fault :: "io \<Rightarrow> bool"
  batch_size :: nat
  document :: "pystr list"
  stored_dict :: "entry list"
  stored_sound :: "entry list"

datatype 'a outcome = Raised world | Done 'a

definition log :: "event \<Rightarrow> world \<Rightarrow> world" where
  "log ev w = w\<lparr>trace := trace w @ [ev]\<rparr>"

definition io_step :: "env \<Rightarrow> io \<Rightarrow> world \<Rightarrow> world outcome" where
  "io_step e p w = (if fault e p then Raised w else Done (log (Did p) w))"

subsection \<open>\<open>call_grok_api\<close>\<close>

text \<open>
  The retry loop, from attempt \<open>attempt\<close> on. Every exception of an attempt is caught; the
  last attempt re-raises, the others print a notice and go on. A loop of no attempt
  returns the empty string.
\<close>

function attempt_from ::
  "env \<Rightarrow> pystr \<Rightarrow> nat \<Rightarrow> nat \<Rightarrow> world \<Rightarrow> (error + pystr option) \<times> world" where
  "attempt_from e prompt max_retries attempt w =
     (if max_retries \<le> attempt then (Inr (Some []), w)
      else
        let w1 = (if 0 < attempt then log (Slept (2 ^ attempt)) w else w);
            w2 = log (Called attempt) (w1\<lparr>calls := calls w1 + 1\<rparr>)
        in case api e (calls w1) prompt of
             Returns text \<Rightarrow> (Inr text, w2)
           | Raises \<Rightarrow>
               if attempt = max_retries - 1 then (Inl ApiFailure, w2)
               else attempt_from e prompt max_retries (Suc attempt) (log (Notice attempt) w2))"
  by pat_completeness auto
termination
  by (relation "measure (\<lambda>(e, prompt, max_retries, attempt, w). max_retries - attempt)") auto

definition call_grok_api :: "env \<Rightarrow> pystr \<Rightarrow> world \<Rightarrow> (error + pystr option) \<times> world" where
  "call_grok_api e prompt w = attempt_from e prompt 3 0 w"

subsection \<open>\<open>select_relevant_sounds\<close>\<close>

definition sound_jp :: "entry \<Rightarrow> pystr" where
  "sound_jp sound = (case sound (py ''sound_jp'') of Some v \<Rightarrow> v | None \<Rightarrow> [])"

definition select_relevant_sounds ::
  "(nat \<Rightarrow> nat) \<Rightarrow> pystr list \<Rightarrow> entry list \<Rightarrow> nat \<Rightarrow> entry list" where
  "select_relevant_sounds rnd batch_lines all_sounds min_count =
     (let batch_text = concat batch_lines;
          relevant = filter (\<lambda>sound. sound_jp sound \<noteq> [] \<and> is_substr (sound_jp sound) batch_text)
                       all_sounds
      in if length relevant < min_count \<and> 0 < length all_sounds
         then
           let remaining = filter (\<lambda>s. s \<notin> set relevant) all_sounds;
               needed = min (min_count - length relevant) (length remaining)
           in relevant @ random_sample rnd remaining needed
         else relevant)"

subsection \<open>One batch of \<open>process_file\<close>\<close>

text \<open>
  The progress tracker and the counters. \<open>count_failed n pending\<close> is the common tail of
  the three failure paths: \<open>total_failed\<close> and \<open>result['failed']\<close> grow by \<open>n\<close>, then
  \<open>update_progress\<close>.
\<close>

definition update_progress :: "nat \<Rightarrow> world \<Rightarrow> world" where
  "update_progress pending w =
     w\<lparr>tracker := (tracker w)
          \<lparr>p_success := total_success w, p_failed := total_failed w, p_pending := pending,
           p_status := (if p_status (tracker w) = Waiting then Processing
                        else p_status (tracker w))\<rparr>\<rparr>"

definition count_failed :: "nat \<Rightarrow> nat \<Rightarrow> world \<Rightarrow> world" where
  "count_failed n pending w =
     update_progress pending
       (w\<lparr>total_failed := total_failed w + n,
          result := (result w)\<lparr>r_failed := r_failed (result w) + n\<rparr>\<rparr>)"

definition pending_after :: "batch_item list \<Rightarrow> nat \<Rightarrow> nat \<Rightarrow> nat" where
  "pending_after japanese_lines size_of_batch batch_idx =
     length japanese_lines -
       min (batch_idx * size_of_batch + size_of_batch) (length japanese_lines)"

text \<open>
  The statements of the outer \<open>try\<close> before the inner one: the glossaries are loaded
  again (the translation glossary from the second batch on), the entries for the prompt
  are selected, the prompt is built and written as the request artifact.
\<close>

definition prepare :: "env \<Rightarrow> batch_item list \<Rightarrow> nat \<Rightarrow> world \<Rightarrow> (pystr \<times> world) outcome" where
  "prepare e batch batch_idx w =
     (case (if 0 < batch_idx
            then (case io_step e (LoadDict batch_idx) w of
                    Raised w' \<Rightarrow> Raised w'
                  | Done w' \<Rightarrow> Done (w'\<lparr>translation_dict_full := json_file w'\<rparr>))
            else Done w) of
        Raised w1 \<Rightarrow> Raised w1
      | Done w1 \<Rightarrow>
          (case io_step e (LoadSound batch_idx) w1 of
             Raised w2 \<Rightarrow> Raised w2
           | Done w2 \<Rightarrow>
               (case io_step e (WriteRequest batch_idx)
                       (w2\<lparr>sound_dict_global := sound_dict_file w2\<rparr>) of
                  Raised w3 \<Rightarrow> Raised w3
                | Done w3 \<Rightarrow>
                    Done (create_prompt e (map (\<lambda>item. fst (snd item)) batch)
                            (select_relevant_translations (draws e (2 * batch_idx))
                               (map (\<lambda>item. fst (snd item)) batch) (translation_dict_full w3) 5)
                            (select_relevant_sounds (draws e (2 * batch_idx + 1))
                               (map (\<lambda>item. fst (snd item)) batch) (sound_dict_global w3) 3),
                          w3))))"

text \<open>
  After a response that is not a refusal: the glossary entries the parser found are merged
  and saved, then the batch is reinserted, the counters are updated and the document is
  written.
\<close>

definition merge_new_dict :: "env \<Rightarrow> nat \<Rightarrow> entry list \<Rightarrow> world \<Rightarrow> world outcome" where
  "merge_new_dict e batch_idx new_dict w =
     (if new_dict \<noteq> []
      then (case io_step e (SaveDict batch_idx)
                   (w\<lparr>translation_dict_full :=
                        merge_dictionaries (translation_dict_full w) new_dict\<rparr>) of
              Raised w' \<Rightarrow> Raised w'
            | Done w' \<Rightarrow>
                Done (w'\<lparr>json_file := translation_dict_full w',
                         tracker := (tracker w')
                           \<lparr>p_dict_count := length (translation_dict_full w')\<rparr>\<rparr>))
      else Done w)"

definition merge_new_sounds :: "env \<Rightarrow> nat \<Rightarrow> entry list \<Rightarrow> world \<Rightarrow> world outcome" where
  "merge_new_sounds e batch_idx new_sound_dict w =
     (if new_sound_dict \<noteq> []
      then (case io_step e (ReloadSound batch_idx) w of
              Raised w' \<Rightarrow> Raised w'
            | Done w' \<Rightarrow>
                (case io_step e (SaveSound batch_idx)
                        (w'\<lparr>sound_dict_global :=
                              merge_sound_dictionaries (sound_dict_file w') new_sound_dict\<rparr>) of
                   Raised w'' \<Rightarrow> Raised w''
                 | Done w'' \<Rightarrow>
                     Done (w''\<lparr>sound_dict_file := sort_by_gojuon e (sound_dict_global w'')\<rparr>)))
      else Done w)"

definition reinsert_batch :: "env \<Rightarrow> batch_item list \<Rightarrow> nat \<Rightarrow> nat \<Rightarrow> pystr \<Rightarrow> world \<Rightarrow> world outcome" where
  "reinsert_batch e batch batch_idx pending translated_content w =
     (case line_translation_map translated_content of
        Inl err \<Rightarrow> Raised w
      | Inr m \<Rightarrow>
          (case reinsert residue_jp m batch (w_lines w, 0, 0) of
             (new_lines, batch_success, batch_failed) \<Rightarrow>
               (case io_step e (WriteDoc batch_idx)
                       (update_progress pending
                          (w\<lparr>w_lines := new_lines,
                             total_success := total_success w + batch_success,
                             total_failed := total_failed w + batch_failed,
                             result := (result w)
                               \<lparr>r_success := r_success (result w) + batch_success,
                                r_failed := r_failed (result w) + batch_failed\<rparr>\<rparr>)) of
                  Raised w' \<Rightarrow> Raised w'
                | Done w' \<Rightarrow> Done (w'\<lparr>txt_file := w_lines w'\<rparr>))))"

text \<open>
  The inner \<open>try\<close>: the call of the service, then the refusal path or the path of a
  translated response. \<open>Raised\<close> is an exception that reaches the inner handler: the
  error of the client, \<open>re.search\<close> on a response without content, a write that fails,
  the parser, or \<open>int\<close> while the map is built.
\<close>

definition respond :: "env \<Rightarrow> batch_item list \<Rightarrow> nat \<Rightarrow> nat \<Rightarrow> pystr \<Rightarrow> world \<Rightarrow> world outcome" where
  "respond e batch batch_idx pending prompt w =
     (case call_grok_api e prompt w of
        (Inl err, w1) \<Rightarrow> Raised w1
      | (Inr None, w1) \<Rightarrow> Raised w1
      | (Inr (Some response_text), w1) \<Rightarrow>
          if is_refusal_response response_text
          then (case io_step e (WriteRefusal batch_idx) w1 of
                  Raised w2 \<Rightarrow> Raised w2
                | Done w2 \<Rightarrow> Done (count_failed (length (countable batch)) pending w2))
          else (case io_step e (WriteResponse batch_idx) w1 of
                  Raised w2 \<Rightarrow> Raised w2
                | Done w2 \<Rightarrow>
                    (case parse_response e response_text of
                       None \<Rightarrow> Raised (log Parsed w2)
                     | Some (new_dict, new_sound_dict, translated_content) \<Rightarrow>
                         (case merge_new_dict e batch_idx new_dict (log Parsed w2) of
                            Raised w3 \<Rightarrow> Raised w3
                          | Done w3 \<Rightarrow>
                              (case merge_new_sounds e batch_idx new_sound_dict w3 of
                                 Raised w4 \<Rightarrow> Raised w4
                               | Done w4 \<Rightarrow>
                                   reinsert_batch e batch batch_idx pending
                                     translated_content w4)))))"

text \<open>
  The handler of the inner \<open>try\<close> (the transport-failure path: it writes the failure
  artifact and counts the lines of the batch that have an identity token) and the handler
  of the outer \<open>try\<close> (it counts every line of the batch).
\<close>

definition on_failure :: "env \<Rightarrow> batch_item list \<Rightarrow> nat \<Rightarrow> nat \<Rightarrow> world \<Rightarrow> world outcome" where
  "on_failure e batch batch_idx pending w =
     (case io_step e (WriteFailure batch_idx) w of
        Raised w' \<Rightarrow> Raised w'
      | Done w' \<Rightarrow> Done (count_failed (length (countable batch)) pending w'))"

definition on_batch_error :: "batch_item list \<Rightarrow> nat \<Rightarrow> world \<Rightarrow> world" where
  "on_batch_error batch pending w = count_failed (length batch) pending w"

definition process_batch :: "env \<Rightarrow> batch_item list \<Rightarrow> world \<Rightarrow> nat \<Rightarrow> world" where
  "process_batch e japanese_lines w batch_idx =
     (let batch = batch_of japanese_lines (batch_size e) batch_idx;
          pending = pending_after japanese_lines (batch_size e) batch_idx
      in case prepare e batch batch_idx w of
           Raised w1 \<Rightarrow> on_batch_error batch pending w1
         | Done (prompt, w1) \<Rightarrow>
             (case respond e batch batch_idx pending prompt w1 of
                Done w2 \<Rightarrow> w2
              | Raised w2 \<Rightarrow>
                  (case on_failure e batch batch_idx pending w2 of
                     Done w3 \<Rightarrow> w3
                   | Raised w3 \<Rightarrow> on_batch_error batch pending w3)))"

subsection \<open>\<open>process_file\<close>\<close>

text \<open>
  The world in which a file starts: the pool has created its tracker entry with status
  \<open>waiting\<close>, and \<open>process_file\<close> its \<open>result\<close> with status \<open>success\<close>.
\<close>

definition initial_world :: "env \<Rightarrow> world" where
  "initial_world e =
     \<lparr>w_lines = [], translation_dict_full = [], sound_dict_global = [],
      json_file = stored_dict e, sound_dict_file = stored_sound e, txt_file = document e,
      tracker = \<lparr>p_total = 0, p_translation_total = 0, p_skipped = 0, p_success = 0,
                  p_failed = 0, p_pending = 0, p_dict_count = 0, p_status = Waiting\<rparr>,
      result = \<lparr>r_total_lines = 0, r_japanese_lines = 0, r_success = 0, r_failed = 0,
                 r_status = RSuccess\<rparr>,
      total_success = 0, total_failed = 0, trace = [], calls = 0\<rparr>"

definition finish :: "status \<Rightarrow> result_status \<Rightarrow> world \<Rightarrow> world" where
  "finish st rs w = w\<lparr>tracker := (tracker w)\<lparr>p_status := st\<rparr>, result := (result w)\<lparr>r_status := rs\<rparr>\<rparr>"

definition init_progress :: "nat \<Rightarrow> nat \<Rightarrow> world \<Rightarrow> world" where
  "init_progress total_lines translation_lines w =
     w\<lparr>tracker := \<lparr>p_total = total_lines, p_translation_total = translation_lines,
                    p_skipped = total_lines - translation_lines, p_success = 0, p_failed = 0,
                    p_pending = translation_lines, p_dict_count = 0, p_status = Processing\<rparr>\<rparr>"

text \<open>
  The statements between the segmentation and the batch loop. They are inside the outer
  \<open>try\<close> of \<open>process_file\<close> but outside every per-batch handler: a load that raises
  (anything but a JSON decode error), or a batch size of zero in the division that counts
  the batches, ends the file.
\<close>

definition start_file :: "env \<Rightarrow> nat \<Rightarrow> world \<Rightarrow> world outcome" where
  "start_file e total_japanese_lines w =
     (case io_step e LoadDictFirst (init_progress (length (w_lines w)) total_japanese_lines w) of
        Raised w1 \<Rightarrow> Raised w1
      | Done w1 \<Rightarrow>
          (case io_step e LoadSoundFirst (w1\<lparr>translation_dict_full := json_file w1\<rparr>) of
             Raised w2 \<Rightarrow> Raised w2
           | Done w2 \<Rightarrow>
               if batch_size e = 0
               then Raised (w2\<lparr>sound_dict_global := sound_dict_file w2,
                               tracker := (tracker w2)
                                 \<lparr>p_dict_count := length (translation_dict_full w2)\<rparr>\<rparr>)
               else Done (w2\<lparr>sound_dict_global := sound_dict_file w2,
                             tracker := (tracker w2)
                               \<lparr>p_dict_count := length (translation_dict_full w2)\<rparr>\<rparr>)))"

definition num_batches :: "env \<Rightarrow> nat \<Rightarrow> nat" where
  "num_batches e total_japanese_lines =
     (total_japanese_lines + batch_size e - 1) div batch_size e"

definition process_file :: "env \<Rightarrow> world" where
  "process_file e =
     (if fault e ReadDoc then finish Failed RFailed (initial_world e)
      else
        let w = log (Did ReadDoc) ((initial_world e)\<lparr>w_lines := document e\<rparr>)
        in case get_translation_lines (w_lines w) of
             Inl err \<Rightarrow> finish Failed RFailed w
           | Inr japanese_lines \<Rightarrow>
               (let w1 = w\<lparr>result := (result w)\<lparr>r_total_lines := length (w_lines w),
                                                  r_japanese_lines := length japanese_lines\<rparr>\<rparr>
                in if length japanese_lines = 0 then finish Skipped RSkipped w1
                   else case start_file e (length japanese_lines) w1 of
                          Raised w2 \<Rightarrow> finish Failed RFailed w2
                        | Done w2 \<Rightarrow>
                            (let w3 = foldl (process_batch e japanese_lines) w2
                                        [0..<num_batches e (length japanese_lines)]
                             in finish Completed
                                  (if 0 < r_failed (result w3) then RPartial
                                   else r_status (result w3))
                                  w3)))"

subsection \<open>Sample data\<close>

text \<open>
  Glossary entries used to run the definitions: \<open>sample_a\<close> maps
  hiragana A to a Chinese character, \<open>sample_a2\<close> has the same source term with another
  target, \<open>sample_a_space\<close> the same source term followed by a space, \<open>sample_ka\<close> has
  another source term with a trailing space, \<open>sample_bad\<close> has a Latin target and fails the
  validity check; \<open>sample_en\<close> and \<open>sample_en2\<close> are entries of the English variant.
\<close>

definition sample_a :: entry where
  "sample_a = [py ''jp'' \<mapsto> [0x3042], py ''zh'' \<mapsto> [0x963F]]"

definition sample_a2 :: entry where
  "sample_a2 = [py ''jp'' \<mapsto> [0x3042], py ''zh'' \<mapsto> [0x4E9E]]"

definition sample_ka :: entry where
  "sample_ka = [py ''jp'' \<mapsto> [0x30AB, 32], py ''zh'' \<mapsto> [0x5361]]"

definition sample_bad :: entry where
  "sample_bad = [py ''jp'' \<mapsto> [0x3044], py ''zh'' \<mapsto> py ''ok'']"

definition sample_en :: entry where
  "sample_en = [py ''en'' \<mapsto> py ''Adam'', py ''zh'' \<mapsto> [0x4E9E, 0x7576]]"

definition sample_en2 :: entry where
  "sample_en2 = [py ''en'' \<mapsto> py ''Adam'', py ''zh'' \<mapsto> [0x963F, 0x4E39]]"

definition sample_line :: pystr where
  "sample_line = py ''<p data-line=\"1\">x</p>''"

text \<open>
  A document of one line \<open><p data-line="1">...</p>\<close> holding hiragana A, its batch, and
  a document with a second line that needs no translation; translated contents as the
  parser hands them over: one whose payload is still kana, one whose payload spans two lines,
  and one with two units for the token 7; the maps built from the first two.
\<close>

definition sample_open :: pystr where
  "sample_open = py ''<p data-line='' @ [34, 49, 34, 62]"

definition sample_close :: pystr where
  "sample_close = py ''</p>''"

definition sample_doc :: "pystr list" where
  "sample_doc = [sample_open @ [0x3042] @ sample_close @ [10]]"

definition sample_batch :: "batch_item list" where
  "sample_batch = [(0, sample_open @ [0x3042] @ sample_close @ [10], 1)]"

definition sample_doc_two :: "pystr list" where
  "sample_doc_two =
     [sample_open @ [0x3042] @ sample_close @ [10],
      py ''<p data-line='' @ [34, 50, 34, 62, 0x7532] @ sample_close @ [10]]"

definition sample_a_space :: entry where
  "sample_a_space = [py ''jp'' \<mapsto> [0x3042, 32], py ''zh'' \<mapsto> [0x4E9E]]"

definition sample_reply_kana :: pystr where
  "sample_reply_kana = sample_open @ [0x3044] @ sample_close"

definition sample_map_kana :: "int \<rightharpoonup> pystr" where
  "sample_map_kana = [1 \<mapsto> sample_reply_kana]"

definition sample_reply_two_lines :: pystr where
  "sample_reply_two_lines = sample_open @ [0x7532, 10, 0x4E59] @ sample_close"

definition sample_map_two_lines :: "int \<rightharpoonup> pystr" where
  "sample_map_two_lines = [1 \<mapsto> sample_reply_two_lines]"

text \<open>
  The map of a translated content without any unit, and a unit for the token 1 whose
  payload is empty.
\<close>

definition sample_map_none :: "int \<rightharpoonup> pystr" where
  "sample_map_none = Map.empty"

definition sample_reply_blank :: pystr where
  "sample_reply_blank = sample_open @ sample_close"

definition sample_map_blank :: "int \<rightharpoonup> pystr" where
  "sample_map_blank = [1 \<mapsto> sample_reply_blank]"

definition sample_reply_dup :: pystr where
  "sample_reply_dup =
     py ''<p data-line=7>'' @ [0x7532] @ py ''</p>'' @
     py ''<p data-line='' @ [34, 48, 55, 34, 62, 0x4E59] @ py ''</p>''"

section \<open>Properties of the identity attribute\<close>

text \<open>
  \<open>dhead x\<close>: the text starts with \<open>d\<close> or \<open>D\<close>, as every match of the pattern and
  every canonical attribute does. The pattern's literal has no other \<open>d\<close>, and \<open>d\<close> is
  in none of the classes the pattern reads after the literal, so an attempt that starts
  before such a text cannot tell which one follows.
\<close>

definition dhead :: "pystr \<Rightarrow> bool" where
  "dhead x \<longleftrightarrow> (case x of [] \<Rightarrow> False | c # _ \<Rightarrow> c = 100 \<or> c = 68)"

lemma is_digit_low: "c < 1632 \<Longrightarrow> is_digit c \<longleftrightarrow> 48 \<le> c \<and> c \<le> 57"
  by (simp add: is_digit_def nd_zeros_def) arith

lemma is_digit_mid: "7258 \<le> c \<Longrightarrow> c < 42528 \<Longrightarrow> \<not> is_digit c"
  by (simp add: is_digit_def nd_zeros_def)

lemma lit_data_line: "py ''data-line'' = [100, 97, 116, 97, 45, 108, 105, 110, 101]"
  by (simp add: py_def)

lemma ci_eq_100: "ci_eq 100 c \<longleftrightarrow> c = 100 \<or> c = 68"
  by (auto simp: ci_eq_def uni_lower_def Let_def split: if_splits)

lemma dhead_not_special:
  "c = 100 \<or> c = 68 \<Longrightarrow>
     \<not> is_space c \<and> \<not> is_quote c \<and> \<not> is_digit c \<and> c \<noteq> 92 \<and> c \<noteq> 61"
  by (auto simp: is_space_def is_quote_def is_digit_low)

lemma dhead_plain:
  assumes "dhead x"
  shows "dropWhile is_space x = x" "opt_quote x = x" "takeWhile is_digit x = []"
    "x \<noteq> []" "hd x \<noteq> 61"
proof -
  from assms obtain c t where x: "x = c # t" and c: "c = 100 \<or> c = 68"
    by (cases x) (auto simp: dhead_def)
  note ns = dhead_not_special[OF c]
  show "dropWhile is_space x = x" "takeWhile is_digit x = []" "x \<noteq> []" "hd x \<noteq> 61"
    using ns by (simp_all add: x)
  show "opt_quote x = x" using ns by (cases t) (simp_all add: x)
qed

lemma match_lit_ci_cross:
  "\<forall>l\<in>set ls. \<not> ci_eq l 100 \<and> \<not> ci_eq l 68 \<Longrightarrow> length p < length ls \<Longrightarrow> dhead x
     \<Longrightarrow> match_lit_ci ls (p @ x) = None"
proof (induction ls arbitrary: p)
  case Nil
  then show ?case by simp
next
  case (Cons l ls)
  show ?case
  proof (cases p)
    case Nil
    with Cons.prems show ?thesis by (cases x) (auto simp: dhead_def)
  next
    case (Cons c p')
    with Cons.prems Cons.IH[of p'] show ?thesis by simp
  qed
qed

lemma match_lit_short:
  assumes "p \<noteq> []" "length p < 9" "dhead x"
  shows "match_lit_ci (py ''data-line'') (p @ x) = None"
proof -
  from assms(1) obtain c p' where p: "p = c # p'" by (cases p) auto
  have "match_lit_ci [97, 116, 97, 45, 108, 105, 110, 101] (p' @ x) = None"
    using assms(2,3) p
    by (intro match_lit_ci_cross) (auto simp: ci_eq_def uni_lower_def Let_def)
  then show ?thesis by (simp add: lit_data_line p)
qed

lemma match_lit_long:
  "length l \<le> length p \<Longrightarrow>
     match_lit_ci l (p @ x) = map_option (\<lambda>r. r @ x) (match_lit_ci l p)"
  by (induction l p rule: match_lit_ci.induct) auto

lemma opt_quote_append:
  "w \<noteq> [] \<Longrightarrow> dhead x \<Longrightarrow> opt_quote (w @ x) = opt_quote w @ x"
  by (cases w; cases "tl w"; cases x) (auto simp: dhead_def is_quote_def)

lemma attr_tail_dhead: "dhead x \<Longrightarrow> attr_tail x = None"
  by (cases x) (auto simp: attr_tail_def dhead_def is_space_def)

lemma attr_tail_append:
  assumes "dhead x" "dhead x'"
  shows "attr_tail (p @ x) = None \<longleftrightarrow> attr_tail (p @ x') = None"
proof (cases "\<forall>c\<in>set p. is_space c")
  case True
  then have "attr_tail (p @ y) = attr_tail y" for y
    by (simp add: attr_tail_def dropWhile_append)
  then show ?thesis using assms by (simp add: attr_tail_dhead)
next
  case False
  then obtain e r2 where d: "dropWhile is_space p = e # r2"
    by (cases "dropWhile is_space p") (auto simp: dropWhile_eq_Nil_conv)
  have dx: "dropWhile is_space (p @ y) = e # r2 @ y" for y
    using False d by (auto simp: dropWhile_append)
  show ?thesis
  proof (cases "e = 61")
    case False
    then show ?thesis by (simp add: attr_tail_def dx)
  next
    case e: True
    have at: "attr_tail (p @ y) =
        (let r3 = opt_quote (dropWhile is_space (r2 @ y)); ds = takeWhile is_digit r3
         in if ds = [] then None else Some (ds, opt_quote (dropWhile is_digit r3)))" for y
      using dx[of y] e by (simp add: attr_tail_def)
    show ?thesis
    proof (cases "\<forall>c\<in>set r2. is_space c")
      case True
      have "dropWhile is_space (r2 @ y) = y" if "dhead y" for y
        using True that by (simp add: dropWhile_append dhead_plain)
      then show ?thesis using assms
        by (simp add: at dhead_plain Let_def)
    next
      case False
      define w where "w = dropWhile is_space r2"
      have w: "w \<noteq> []" using False by (auto simp: w_def dropWhile_eq_Nil_conv)
      have dw: "dropWhile is_space (r2 @ y) = w @ y" for y
        using False by (auto simp: dropWhile_append w_def)
      define v where "v = opt_quote w"
      have r3: "opt_quote (dropWhile is_space (r2 @ y)) = v @ y" if "dhead y" for y
        using that w by (simp add: dw opt_quote_append v_def)
      have tk: "takeWhile is_digit (v @ y) = takeWhile is_digit v" if "dhead y" for y
        using that by (auto simp: takeWhile_append dhead_plain takeWhile_eq_all_conv[THEN iffD2])
      show ?thesis using assms
        by (simp add: at r3 tk Let_def)
    qed
  qed
qed

lemma match_attr_append:
  assumes "p \<noteq> []" "dhead x" "dhead x'"
  shows "match_attr (p @ x) = None \<longleftrightarrow> match_attr (p @ x') = None"
proof (cases "length p < 9")
  case True
  then show ?thesis using assms by (simp add: match_attr_def match_lit_short)
next
  case False
  then have len: "length (py ''data-line'') \<le> length p" by (simp add: lit_data_line)
  show ?thesis
  proof (cases "match_lit_ci (py ''data-line'') p")
    case None
    then show ?thesis by (simp add: match_attr_def match_lit_long[OF len])
  next
    case (Some r)
    then show ?thesis using attr_tail_append[OF assms(2,3), of r]
      by (simp add: match_attr_def match_lit_long[OF len])
  qed
qed

lemma match_attr_dhead: "match_attr s = Some z \<Longrightarrow> dhead s"
  by (cases s) (auto simp: match_attr_def lit_data_line dhead_def ci_eq_100 split: option.splits if_splits)

lemma match_attr_digits:
  "match_attr s = Some (ds, rest) \<Longrightarrow> ds \<noteq> [] \<and> (\<forall>d\<in>set ds. is_digit d)"
  by (auto simp: match_attr_def attr_tail_def Let_def split: option.splits list.splits if_splits
           dest: set_takeWhileD)

lemma opt_quote_quote: "is_quote c \<Longrightarrow> opt_quote (c # r) = r"
  by (cases r) (auto simp: is_quote_def)

lemma match_lit_ci_self: "match_lit_ci (py ''data-line'') (py ''data-line'' @ y) = Some y"
  by (simp add: lit_data_line ci_eq_def uni_lower_def)

lemma canonical_dhead: "dhead (canonical_attr ds @ y)"
  by (simp add: canonical_attr_def py_def dhead_def)

lemma match_attr_canonical:
  assumes "ds \<noteq> []" "\<forall>d\<in>set ds. is_digit d"
  shows "match_attr (canonical_attr ds @ y) = Some (ds, y)"
proof -
  have nd: "\<not> is_digit 34" by (simp add: is_digit_low)
  have tk: "takeWhile is_digit (ds @ 34 # y) = ds" "dropWhile is_digit (ds @ 34 # y) = 34 # y"
    using assms(2) nd by (simp_all add: takeWhile_append dropWhile_append)
  have "canonical_attr ds @ y = py ''data-line'' @ (61 # 34 # ds @ 34 # y)"
    by (simp add: canonical_attr_def py_def)
  moreover have "match_attr (py ''data-line'' @ (61 # 34 # ds @ 34 # y)) =
      attr_tail (61 # 34 # ds @ 34 # y)"
    by (simp only: match_attr_def match_lit_ci_self option.case)
  ultimately have "match_attr (canonical_attr ds @ y) = attr_tail (61 # 34 # ds @ 34 # y)"
    by (simp only:)
  also have "\<dots> = Some (ds, y)"
    using assms(1) tk
    by (simp add: attr_tail_def is_space_def opt_quote_quote is_quote_def Let_def)
  finally show ?thesis .
qed

lemma normalize_keeps_None:
  "match_attr (p @ r) = None \<Longrightarrow> match_attr (p @ normalize_data_line_attribute r) = None"
proof (induction r arbitrary: p rule: normalize_data_line_attribute.induct)
  case 1
  then show ?case by simp
next
  case (2 c cs)
  show ?case
  proof (cases "match_attr (c # cs)")
    case None
    from 2(1)[OF None, of "p @ [c]"] 2(3) show ?thesis by (simp add: None)
  next
    case (Some z)
    obtain ds rest where z: "z = (ds, rest)" by (cases z)
    from Some 2(3) have pn: "p \<noteq> []" by auto
    have "match_attr (p @ canonical_attr ds @ normalize_data_line_attribute rest) = None"
      using match_attr_append[OF pn match_attr_dhead[OF Some] canonical_dhead] 2(3) by simp
    then show ?thesis by (simp add: Some z)
  qed
qed

lemma normalize_canonical_append:
  assumes "ds \<noteq> []" "\<forall>d\<in>set ds. is_digit d"
  shows "normalize_data_line_attribute (canonical_attr ds @ y) =
         canonical_attr ds @ normalize_data_line_attribute y"
proof -
  obtain c cs where cc: "canonical_attr ds @ y = c # cs"
    by (simp add: canonical_attr_def py_def)
  show ?thesis
    using match_attr_canonical[OF assms, of y]
    unfolding cc by simp
qed

lemma normalize_idem:
  "normalize_data_line_attribute (normalize_data_line_attribute s) = normalize_data_line_attribute s"
proof (induction s rule: normalize_data_line_attribute.induct)
  case 1
  then show ?case by simp
next
  case (2 c cs)
  show ?case
  proof (cases "match_attr (c # cs)")
    case None
    have "match_attr ([c] @ normalize_data_line_attribute cs) = None"
      using None by (intro normalize_keeps_None) simp
    then show ?thesis using 2(1)[OF None] by (simp add: None)
  next
    case (Some z)
    obtain ds rest where z: "z = (ds, rest)" by (cases z)
    from match_attr_digits Some z have dg: "ds \<noteq> []" "\<forall>d\<in>set ds. is_digit d" by auto
    show ?thesis using 2(2)[OF Some z[symmetric]] 
      by (simp add: Some z normalize_canonical_append[OF dg])
  qed
qed

lemma is_digit_high: "130042 \<le> c \<Longrightarrow> \<not> is_digit c"
  by (simp add: is_digit_def nd_zeros_def)

lemmas char_ev = py_def ci_eq_def uni_lower_def is_space_def is_digit_low is_digit_mid
  is_quote_def Let_def

lemmas attr_ev = match_attr_def attr_tail_def canonical_attr_def

section \<open>Properties of the glossary merge\<close>

lemma source_terms_iff: "j \<in> source_terms k items \<longleftrightarrow> (\<exists>e\<in>set items. e k = Some j)"
  by (induction items) (auto simp: source_terms_def List.map_filter_simps split: option.splits)

lemma merge_loop_prefix: "\<exists>app. merge_loop k valid ex m new = m @ app"
proof (induction new arbitrary: ex m)
  case Nil
  then show ?case by simp
next
  case (Cons item new)
  show ?case
  proof (cases "valid item \<and> (\<exists>t. item k = Some t \<and> t \<notin> ex)")
    case True
    then obtain t where t: "item k = Some t" "t \<notin> ex" by auto
    from Cons.IH[of "insert t ex" "m @ [item]"] obtain app where
      "merge_loop k valid (insert t ex) (m @ [item]) new = (m @ [item]) @ app" by blast
    with True t show ?thesis by simp
  next
    case False
    with Cons.IH[of ex m] show ?thesis by (auto split: option.splits)
  qed
qed

lemma merge_loop_terms:
  "ex = source_terms k m \<Longrightarrow>
   source_terms k (merge_loop k valid ex m new) =
     source_terms k m \<union> {j. \<exists>b\<in>set new. valid b \<and> b k = Some j}"
proof (induction new arbitrary: ex m)
  case Nil
  then show ?case by simp
next
  case (Cons item new)
  show ?case
  proof (cases "valid item \<and> (\<exists>t. item k = Some t \<and> t \<notin> ex)")
    case True
    then obtain t where t: "item k = Some t" "t \<notin> ex" by auto
    have ex': "insert t ex = source_terms k (m @ [item])"
      using Cons.prems t by (auto simp: source_terms_iff)
    from Cons.IH[OF ex'] True t show ?thesis
      by (auto simp: source_terms_iff)
  next
    case False
    with Cons.IH[OF Cons.prems] Cons.prems show ?thesis
      by (auto simp: source_terms_iff split: option.splits)
  qed
qed

lemma merge_by_spec:
  "take (length A) (merge_by k valid A B) = A \<and>
   source_terms k (merge_by k valid A B) =
     source_terms k A \<union> {j. \<exists>b\<in>set B. valid b \<and> b k = Some j \<and> j \<notin> source_terms k A}"
proof -
  obtain app where "merge_by k valid A B = A @ app"
    unfolding merge_by_def using merge_loop_prefix by blast
  moreover have "source_terms k (merge_by k valid A B) =
     source_terms k A \<union> {j. \<exists>b\<in>set B. valid b \<and> b k = Some j}"
    unfolding merge_by_def by (rule merge_loop_terms) simp
  ultimately show ?thesis by auto
qed


lemmas text_ev = strip_def in_range_def is_kana_def is_cjk_def is_japanese_def is_pure_chinese_def
  nonspace_run_def match_url_def match_www_def is_lower_def is_alpha_def is_alnum_def
  is_local_def is_dom_def match_email_def has_english_or_japanese_def has_english_def

lemmas entry_ev = validate_translation_entry_def validate_sound_entry_def
  validate_translation_entry_en_def source_terms_def List.map_filter_simps merge_by_def
  merge_dictionaries_def merge_dictionaries_en_def merge_sound_dictionaries_def

lemmas sample_ev = sample_a_def sample_a2_def sample_ka_def sample_bad_def sample_en_def
  sample_en2_def sample_line_def sample_a_space_def

section \<open>Properties of the relevance selection\<close>

lemma random_sample_length: "k \<le> length xs \<Longrightarrow> length (random_sample rnd xs k) = k"
proof (induction k arbitrary: xs rnd)
  case 0
  then show ?case by simp
next
  case (Suc k)
  then have ne: "xs \<noteq> []" by auto
  let ?i = "rnd 0 mod length xs"
  have i: "?i < length xs" using ne by simp
  have "k \<le> length (take ?i xs @ drop (Suc ?i) xs)" using Suc.prems i by simp
  from Suc.IH[OF this] ne show ?case by simp
qed

lemma random_sample_subset: "set (random_sample rnd xs k) \<subseteq> set xs"
proof (induction k arbitrary: xs rnd)
  case 0
  then show ?case by simp
next
  case (Suc k)
  show ?case
  proof (cases "xs = []")
    case True
    then show ?thesis by simp
  next
    case False
    let ?i = "rnd 0 mod length xs"
    have i: "?i < length xs" using False by simp
    have "set (take ?i xs @ drop (Suc ?i) xs) \<subseteq> set xs"
      by (auto dest: in_set_takeD in_set_dropD)
    with Suc.IH[of "\<lambda>n. rnd (Suc n)" "take ?i xs @ drop (Suc ?i) xs"] i False
    show ?thesis by auto
  qed
qed

lemmas select_ev = after_gt_def match_p_text_def jp_value_def remaining_entries_def
  select_relevant_translations_def source_term_def zero_draws_def

lemma sample_valid:
  "validate_translation_entry sample_a" "validate_translation_entry sample_a2"
  "validate_translation_entry sample_ka" "\<not> validate_translation_entry sample_bad"
  "validate_translation_entry_en sample_en" "validate_translation_entry sample_a_space"
  by (simp_all add: sample_ev char_ev text_ev entry_ev)

lemma sample_jp_value:
  "jp_value sample_a = [0x3042]" "jp_value sample_a2 = [0x3042]" "jp_value sample_ka = [0x30AB]"
  "jp_value sample_a_space = [0x3042]"
  by (simp_all add: sample_ev char_ev text_ev jp_value_def)

lemma sample_line_text: "extract_text_from_tags sample_line = [120]"
  by (simp add: sample_ev char_ev match_p_text_def after_gt_def)

section \<open>Properties of the translated map and of reinsertion\<close>

lemma foldl_update_last:
  "foldl (\<lambda>m (k, v). m(f k \<mapsto> g v)) m0 xs n =
     (if filter (\<lambda>(k, v). f k = n) xs = [] then m0 n
      else Some (g (snd (last (filter (\<lambda>(k, v). f k = n) xs)))))"
proof (induction xs rule: rev_induct)
  case Nil
  then show ?case by simp
next
  case (snoc x xs)
  obtain k v where x: "x = (k, v)" by (cases x)
  show ?case using snoc by (simp add: x)
qed

text \<open>
  The map is built exactly when \<open>int\<close> accepts the line number of every unit; it is then
  the fold of the assignments over the units.
\<close>

lemma build_map_Inr:
  "build_map m0 units = Inr m \<longleftrightarrow>
     (\<forall>u\<in>set units. length (fst u) \<le> int_max_str_digits) \<and>
     m = foldl (\<lambda>m (ds, html). m(digits_value ds \<mapsto> normalize_data_line_attribute html)) m0 units"
proof (induction units arbitrary: m0)
  case Nil
  then show ?case by auto
next
  case (Cons u units)
  obtain ds html where u: "u = (ds, html)" by (cases u)
  show ?case
  proof (cases "int_max_str_digits < length ds")
    case True
    then show ?thesis by (auto simp: u token_of_def)
  next
    case False
    then show ?thesis by (simp add: u token_of_def Cons.IH)
  qed
qed

lemma build_map_Inl:
  "build_map m0 units = Inl err \<longleftrightarrow>
     err = ValueError \<and> (\<exists>u\<in>set units. int_max_str_digits < length (fst u))"
proof (induction units arbitrary: m0)
  case Nil
  then show ?case by simp
next
  case (Cons u units)
  obtain ds html where u: "u = (ds, html)" by (cases u)
  show ?case
  proof (cases "int_max_str_digits < length ds")
    case True
    then show ?thesis by (auto simp: u token_of_def)
  next
    case False
    then show ?thesis by (simp add: u token_of_def Cons.IH)
  qed
qed

lemma line_translation_map_last:
  assumes "line_translation_map content = Inr m"
  shows "m n =
     (if filter (\<lambda>(ds, html). token_of ds = Inr n) (ptag_finditer content) = [] then None
      else Some (normalize_data_line_attribute
                   (snd (last (filter (\<lambda>(ds, html). token_of ds = Inr n)
                                 (ptag_finditer content))))))"
proof -
  let ?units = "ptag_finditer content"
  from assms have b: "\<forall>u\<in>set ?units. length (fst u) \<le> int_max_str_digits"
    and m: "m = foldl (\<lambda>m (ds, html). m(digits_value ds \<mapsto> normalize_data_line_attribute html))
                 Map.empty ?units"
    by (simp_all add: line_translation_map_def build_map_Inr)
  have "filter (\<lambda>(ds, html). token_of ds = Inr n) ?units =
        filter (\<lambda>(ds, html). digits_value ds = n) ?units"
    using b by (intro filter_cong) (auto simp: token_of_def)
  then show ?thesis unfolding m by (simp add: foldl_update_last)
qed

text \<open>The segmentation lists the lines in the order of the document, each once.\<close>

lemma translation_lines_from_item:
  "translation_lines_from needs idx lines = Inr items \<Longrightarrow> (i, l, n) \<in> set items \<Longrightarrow>
     idx \<le> i \<and> i < idx + length lines \<and> l = lines ! (i - idx) \<and> needs l \<and>
     extract_line_number l = Inr n"
proof (induction lines arbitrary: idx items)
  case Nil
  then show ?case by simp
next
  case (Cons line rest)
  show ?case
  proof (cases "needs line")
    case False
    with Cons.prems have "translation_lines_from needs (Suc idx) rest = Inr items" by simp
    from Cons.IH[OF this Cons.prems(2)] show ?thesis by (auto simp: nth_Cons')
  next
    case True
    with Cons.prems(1) obtain num items' where
      num: "extract_line_number line = Inr num"
      and rest: "translation_lines_from needs (Suc idx) rest = Inr items'"
      and items: "items = (idx, line, num) # items'"
      by (auto split: sum.splits)
    show ?thesis
    proof (cases "(i, l, n) = (idx, line, num)")
      case True
      with \<open>needs line\<close> num show ?thesis by simp
    next
      case False
      with Cons.prems(2) items have "(i, l, n) \<in> set items'" by auto
      from Cons.IH[OF rest this] show ?thesis by (auto simp: nth_Cons')
    qed
  qed
qed

lemma translation_lines_from_distinct:
  "translation_lines_from needs idx lines = Inr items \<Longrightarrow> distinct (map fst items)"
proof (induction lines arbitrary: idx items)
  case Nil
  then show ?case by simp
next
  case (Cons line rest)
  show ?case
  proof (cases "needs line")
    case False
    with Cons.prems have "translation_lines_from needs (Suc idx) rest = Inr items" by simp
    from Cons.IH[OF this] show ?thesis .
  next
    case True
    with Cons.prems(1) obtain num items' where
      rest: "translation_lines_from needs (Suc idx) rest = Inr items'"
      and items: "items = (idx, line, num) # items'"
      by (auto split: sum.splits)
    have "idx \<notin> fst ` set items'"
    proof
      assume "idx \<in> fst ` set items'"
      then obtain l n where "(idx, l, n) \<in> set items'" by auto
      from translation_lines_from_item[OF rest this] show False by simp
    qed
    with Cons.IH[OF rest] show ?thesis by (simp add: items)
  qed
qed

lemma batch_of_subset: "set (batch_of japanese_lines n b) \<subseteq> set japanese_lines"
  unfolding batch_of_def by (meson set_take_subset set_drop_subset subset_trans)

lemma batch_of_distinct:
  "distinct (map fst japanese_lines) \<Longrightarrow> distinct (map fst (batch_of japanese_lines n b))"
  unfolding batch_of_def
  by (simp add: take_map[symmetric] drop_map[symmetric] distinct_take distinct_drop)

lemma strip_not_Nil: "c \<in> set s \<Longrightarrow> \<not> is_space c \<Longrightarrow> strip s \<noteq> []"
proof
  assume c: "c \<in> set s" "\<not> is_space c" and e: "strip s = []"
  from c have ne: "dropWhile is_space s \<noteq> []" by (auto simp: dropWhile_eq_Nil_conv)
  then have h: "\<not> is_space (hd (dropWhile is_space s))" by (rule hd_dropWhile)
  from e have "\<forall>x\<in>set (dropWhile is_space s). is_space x"
    by (simp add: strip_def dropWhile_eq_Nil_conv)
  with ne h show False by (metis hd_in_set)
qed

lemma reinsert_fold:
  "reinsert residue m batch (lines, s, f) =
     (foldl (write_back m) lines batch,
      s + length (filter (counted_success residue m) batch),
      f + length (filter (counted_failed residue m) batch))"
proof (induction batch arbitrary: lines s f)
  case Nil
  then show ?case by simp
next
  case (Cons item batch)
  obtain idx line num where item: "item = (idx, line, num)" by (cases item)
  show ?case
    unfolding item
    by (simp add: Cons.IH write_back_def counted_success_def counted_failed_def replacement_def
          split: option.splits)
qed

lemma write_back_length: "length (foldl (write_back m) lines batch) = length lines"
  by (induction batch arbitrary: lines) (auto simp: write_back_def split: option.splits)

lemma write_back_outside:
  "i \<notin> fst ` set batch \<Longrightarrow> foldl (write_back m) lines batch ! i = lines ! i"
  by (induction batch arbitrary: lines) (auto simp: write_back_def split: option.splits)

lemma write_back_at:
  assumes "distinct (map fst batch)" "(idx, line, num) \<in> set batch" "idx < length lines"
  shows "foldl (write_back m) lines batch ! idx =
           (case replacement m num of None \<Rightarrow> lines ! idx | Some new \<Rightarrow> new)"
  using assms
proof (induction batch arbitrary: lines)
  case Nil
  then show ?case by simp
next
  case (Cons item batch)
  show ?case
  proof (cases "item = (idx, line, num)")
    case True
    then have out: "idx \<notin> fst ` set batch" using Cons.prems(1) by auto
    have wb: "write_back m lines item =
        (case replacement m num of None \<Rightarrow> lines | Some new \<Rightarrow> lines[idx := new])"
      by (simp add: write_back_def True split: option.splits)
    have "foldl (write_back m) (write_back m lines item) batch ! idx = write_back m lines item ! idx"
      using out by (rule write_back_outside)
    then show ?thesis using Cons.prems(3)
      by (simp add: wb split: option.splits)
  next
    case False
    then have mem: "(idx, line, num) \<in> set batch" using Cons.prems(2) by auto
    then have ne: "fst item \<noteq> idx" using Cons.prems(1) by (auto simp: image_iff)
    have len: "idx < length (write_back m lines item)"
      using Cons.prems(3) by (simp add: write_back_def split: option.splits)
    have at: "write_back m lines item ! idx = lines ! idx"
      using ne by (simp add: write_back_def split: option.splits)
    from Cons.IH[OF _ mem len] Cons.prems(1) at show ?thesis
      by (simp split: option.splits)
  qed
qed

lemma reinsert_countable:
  "reinsert residue m (countable batch) st = reinsert residue m batch st"
proof -
  obtain lines s f where st: "st = (lines, s, f)" by (cases st)
  have "reinsert residue m (countable batch) (lines, s, f) = reinsert residue m batch (lines, s, f)"
  proof (induction batch arbitrary: lines s f)
    case Nil
    then show ?case by (simp add: countable_def)
  next
    case (Cons item batch)
    obtain idx line num where item: "item = (idx, line, num)" by (cases item)
    show ?case
    proof (cases "num = - 1")
      case True
      with Cons.IH show ?thesis by (simp add: item countable_def)
    next
      case False
      with Cons.IH show ?thesis
        by (simp add: item countable_def split: option.splits)
    qed
  qed
  then show ?thesis by (simp add: st)
qed

lemmas ptag_ev = match_ptag_def after_gt_def match_p_text_def digit_value_def digits_value_def
  int_max_str_digits_def token_of_def extract_line_number_def with_newline_def

lemmas lang_ev = contains_japanese_def contains_english_def residue_jp_def needs_translation_def
  get_translation_lines_def

lemma sample_doc_lines:
  "get_translation_lines sample_doc = Inr sample_batch"
  "get_translation_lines sample_doc_two = Inr sample_batch"
  by (simp_all add: sample_doc_def sample_doc_two_def sample_batch_def sample_open_def
        sample_close_def char_ev text_ev attr_ev ptag_ev lang_ev nd_zeros_def)

lemma sample_reply_units:
  "ptag_finditer sample_reply_kana = [(py ''1'', sample_reply_kana)]"
  "ptag_finditer sample_reply_two_lines = [(py ''1'', sample_reply_two_lines)]"
  by (simp_all add: sample_reply_kana_def sample_reply_two_lines_def
        sample_open_def sample_close_def char_ev attr_ev ptag_ev)

lemma sample_reply_dup_units:
  "ptag_finditer sample_reply_dup =
     [(py ''7'', py ''<p data-line=7>'' @ [0x7532] @ py ''</p>''),
      (py ''07'', py ''<p data-line='' @ [34, 48, 55, 34, 62, 0x4E59] @ py ''</p>'')]"
  by (simp add: sample_reply_dup_def char_ev attr_ev ptag_ev)

lemma sample_reply_normal:
  "normalize_data_line_attribute sample_reply_kana = sample_reply_kana"
  "normalize_data_line_attribute sample_reply_two_lines = sample_reply_two_lines"
  by (simp_all add: sample_reply_kana_def sample_reply_two_lines_def
        sample_open_def sample_close_def char_ev attr_ev)

lemma sample_reply_text:
  "extract_text_from_tags (sample_reply_kana @ [10]) = [0x3044]"
  by (simp add: sample_reply_kana_def sample_open_def sample_close_def char_ev ptag_ev)

lemma sample_reply_shape:
  "strip sample_reply_kana \<noteq> []" "last sample_reply_kana \<noteq> 10" "sample_reply_kana \<noteq> []"
  "strip sample_reply_two_lines \<noteq> []" "last sample_reply_two_lines \<noteq> 10"
  "sample_reply_two_lines \<noteq> []"
  by (simp_all add: sample_reply_kana_def sample_reply_two_lines_def
        sample_open_def sample_close_def char_ev strip_def)

lemma sample_token:
  "token_of (py ''1'') = Inr 1" "token_of (py ''7'') = Inr 7" "token_of (py ''07'') = Inr 7"
  by (simp_all add: token_of_def digits_value_def digit_value_def int_max_str_digits_def
        nd_zeros_def py_def)

lemma sample_maps:
  "line_translation_map sample_reply_kana = Inr sample_map_kana"
  "line_translation_map sample_reply_two_lines = Inr sample_map_two_lines"
  by (simp_all add: line_translation_map_def sample_reply_units sample_token sample_reply_normal
        sample_map_kana_def sample_map_two_lines_def)

lemma sample_residue: "residue_jp [0x3044]"
  by (simp add: char_ev text_ev lang_ev)

section \<open>Properties of the written lines\<close>

lemma match_lit_ci_decomp:
  "match_lit_ci l s = Some r \<Longrightarrow> \<exists>x. s = x @ r \<and> list_all2 ci_eq l x"
proof (induction l s rule: match_lit_ci.induct)
  case (1 s)
  then show ?case by simp
next
  case (2 p ps)
  then show ?case by simp
next
  case (3 p ps c cs)
  then have c: "ci_eq p c" and m: "match_lit_ci ps cs = Some r" by (auto split: if_splits)
  from 3(1)[OF c m] obtain x where "cs = x @ r" "list_all2 ci_eq ps x" by blast
  with c have "c # cs = (c # x) @ r \<and> list_all2 ci_eq (p # ps) (c # x)" by simp
  then show ?case by blast
qed

lemma split_at_first_decomp:
  "split_at_first m s = Some (b, a) \<Longrightarrow> \<exists>x. s = b @ x \<and> m x = Some a"
proof (induction s arbitrary: b)
  case Nil
  then show ?case by simp
next
  case (Cons c cs)
  show ?case
  proof (cases "m (c # cs)")
    case None
    with Cons.prems obtain b' where b': "split_at_first m cs = Some (b', a)" "b = c # b'"
      by (auto split: option.splits)
    from Cons.IH[OF b'(1)] b'(2) show ?thesis by auto
  next
    case (Some r)
    with Cons.prems show ?thesis by auto
  qed
qed

lemma close_tag_last:
  assumes "list_all2 ci_eq (py ''</p>'') y"
  shows "y \<noteq> [] \<and> last y = 62"
proof -
  from assms obtain a b c d where y: "y = [a, b, c, d]" and d: "ci_eq 62 d"
    by (auto simp: py_def list_all2_Cons1)
  from d have "d = 62" by (auto simp: ci_eq_def uni_lower_def Let_def split: if_splits)
  with y show ?thesis by simp
qed

lemma match_ptag_last:
  assumes "match_ptag s = Some (ds, mt, rest)"
  shows "mt \<noteq> [] \<and> last mt = 62"
proof -
  from assms obtain r r2 body where
    r: "match_lit_ci (py ''<p'') s = Some r" and r2: "after_gt r = Some r2"
    and sp: "split_at_first (match_lit_ci (py ''</p>'')) r2 = Some (body, rest)"
    and mt: "mt = take (length s - length rest) s"
    by (auto simp: match_ptag_def split: option.splits)
  from match_lit_ci_decomp[OF r] obtain p0 where p0: "s = p0 @ r" by blast
  from r2 obtain g where "dropWhile (\<lambda>c. c \<noteq> 62) r = g # r2"
    by (auto simp: after_gt_def split: list.splits)
  then have rr: "r = takeWhile (\<lambda>c. c \<noteq> 62) r @ g # r2"
    by (metis takeWhile_dropWhile_id)
  from split_at_first_decomp[OF sp] obtain x where x: "r2 = body @ x"
    "match_lit_ci (py ''</p>'') x = Some rest" by blast
  from match_lit_ci_decomp[OF x(2)] obtain y where y: "x = y @ rest"
    "list_all2 ci_eq (py ''</p>'') y" by blast
  define pre where "pre = p0 @ takeWhile (\<lambda>c. c \<noteq> 62) r @ g # body"
  have s: "s = (pre @ y) @ rest"
    using p0 rr x(1) y(1) by (simp add: pre_def)
  have "take (length ((pre @ y) @ rest) - length rest) ((pre @ y) @ rest) = pre @ y"
    by simp
  then have "mt = pre @ y" unfolding mt using s by simp
  with close_tag_last[OF y(2)] show ?thesis by simp
qed

lemma ptag_finditer_last:
  "(ds, mt) \<in> set (ptag_finditer s) \<Longrightarrow> mt \<noteq> [] \<and> last mt = 62"
proof (induction s rule: ptag_finditer.induct)
  case 1
  then show ?case by simp
next
  case (2 c cs)
  show ?case
  proof (cases "match_ptag (c # cs)")
    case None
    with 2 show ?thesis by simp
  next
    case (Some z)
    obtain ds' mt' rest where z: "z = (ds', mt', rest)" by (cases z)
    from 2(3) Some z have "(ds, mt) = (ds', mt') \<or> (ds, mt) \<in> set (ptag_finditer rest)"
      by simp
    then show ?thesis
    proof
      assume "(ds, mt) = (ds', mt')"
      with match_ptag_last[of "c # cs" ds' mt' rest] Some z show ?thesis by simp
    next
      assume "(ds, mt) \<in> set (ptag_finditer rest)"
      with 2(2)[OF Some z[symmetric] refl] show ?thesis by simp
    qed
  qed
qed

lemma opt_quote_decomp: "\<exists>q. w = q @ opt_quote w"
  by (induction w rule: opt_quote.induct) auto

lemma opt_quote_Nil: "opt_quote D = [] \<Longrightarrow> D = [] \<or> is_quote (last D)"
  by (induction D rule: opt_quote.induct) (auto split: if_splits)

lemma attr_tail_decomp:
  assumes "attr_tail r = Some (ds, rest)"
  shows "\<exists>pre. r = pre @ rest \<and> pre \<noteq> [] \<and> (rest = [] \<longrightarrow> last pre \<noteq> 62)"
proof -
  from assms obtain r2 where d: "dropWhile is_space r = 61 # r2"
    by (auto simp: attr_tail_def split: list.splits if_splits)
  define w where "w = dropWhile is_space r2"
  define r3 where "r3 = opt_quote w"
  define D where "D = dropWhile is_digit r3"
  from assms d have ds: "ds = takeWhile is_digit r3" "ds \<noteq> []" and rest: "rest = opt_quote D"
    by (auto simp: attr_tail_def Let_def w_def r3_def D_def split: if_splits)
  obtain q where q: "w = q @ r3" unfolding r3_def using opt_quote_decomp by blast
  obtain q' where q': "D = q' @ rest" unfolding rest using opt_quote_decomp by blast
  have r3: "r3 = ds @ D" by (simp add: ds D_def)
  have r: "r = takeWhile is_space r @ 61 # takeWhile is_space r2 @ w"
    by (metis takeWhile_dropWhile_id d w_def)
  define pre where "pre = takeWhile is_space r @ 61 # takeWhile is_space r2 @ q @ ds @ q'"
  have 1: "r = pre @ rest"
    by (subst r) (simp add: pre_def q r3 q')
  have 2: "pre \<noteq> []" by (simp add: pre_def)
  have 3: "last pre \<noteq> 62" if "rest = []"
  proof (cases "q' = []")
    case True
    then have "last pre = last ds" using ds(2) by (simp add: pre_def)
    moreover have "is_digit (last ds)"
      using ds by (metis last_in_set set_takeWhileD)
    moreover have "\<not> is_digit 62" by (simp add: is_digit_low)
    ultimately show ?thesis by auto
  next
    case False
    then have "last pre = last q'" by (simp add: pre_def)
    moreover have "is_quote (last q')"
    proof -
      from that rest have e: "opt_quote D = []" by simp
      from q' that have dq: "D = q'" by simp
      from opt_quote_Nil[OF e] dq False show ?thesis by simp
    qed
    ultimately show ?thesis by (auto simp: is_quote_def)
  qed
  from 1 2 3 show ?thesis by blast
qed

lemma match_attr_decomp:
  assumes "match_attr s = Some (ds, rest)"
  shows "\<exists>pre. s = pre @ rest \<and> pre \<noteq> [] \<and> (rest = [] \<longrightarrow> last pre \<noteq> 62)"
proof -
  from assms obtain r where r: "match_lit_ci (py ''data-line'') s = Some r"
    and t: "attr_tail r = Some (ds, rest)"
    by (cases "match_lit_ci (py ''data-line'') s") (simp_all add: match_attr_def)
  from match_lit_ci_decomp[OF r] obtain x where x: "s = x @ r" by blast
  from attr_tail_decomp[OF t] obtain pre where pre: "r = pre @ rest" "pre \<noteq> []"
    "rest = [] \<longrightarrow> last pre \<noteq> 62" by blast
  have "s = (x @ pre) @ rest \<and> x @ pre \<noteq> [] \<and> (rest = [] \<longrightarrow> last (x @ pre) \<noteq> 62)"
    using x pre by simp
  then show ?thesis by blast
qed

lemma normalize_last:
  "s \<noteq> [] \<Longrightarrow> last s = 62 \<Longrightarrow>
     normalize_data_line_attribute s \<noteq> [] \<and> last (normalize_data_line_attribute s) = 62"
proof (induction s rule: normalize_data_line_attribute.induct)
  case 1
  then show ?case by simp
next
  case (2 c cs)
  show ?case
  proof (cases "match_attr (c # cs)")
    case None
    show ?thesis
    proof (cases "cs = []")
      case True
      with 2(4) None show ?thesis by simp
    next
      case False
      with 2(4) have "last cs = 62" by simp
      from 2(1)[OF None False this] None show ?thesis by simp
    qed
  next
    case (Some z)
    obtain ds rest where z: "z = (ds, rest)" by (cases z)
    from match_attr_decomp[of "c # cs" ds rest] Some z obtain pre where
      pre: "c # cs = pre @ rest" "pre \<noteq> []" "rest = [] \<longrightarrow> last pre \<noteq> 62" by auto
    have ne: "rest \<noteq> []"
    proof
      assume "rest = []"
      with pre 2(4) show False by simp
    qed
    then have "last rest = 62" using pre(1) 2(4) by (metis last_appendR)
    from 2(2)[OF Some z[symmetric] ne this] Some z show ?thesis by simp
  qed
qed

lemma map_value_last:
  assumes "line_translation_map content = Inr m" "m n = Some v"
  shows "v \<noteq> [] \<and> last v = 62 \<and> normalize_data_line_attribute v = v"
proof -
  let ?f = "filter (\<lambda>(ds, html). token_of ds = Inr n) (ptag_finditer content)"
  from assms(2) have ne: "?f \<noteq> []" and v: "v = normalize_data_line_attribute (snd (last ?f))"
    by (auto simp: line_translation_map_last[OF assms(1)] split: if_splits)
  from ne have "last ?f \<in> set (ptag_finditer content)"
    by (metis last_in_set filter_is_subset subsetD)
  then have "(fst (last ?f), snd (last ?f)) \<in> set (ptag_finditer content)" by simp
  from ptag_finditer_last[OF this] have "v \<noteq> [] \<and> last v = 62"
    unfolding v by (intro normalize_last) auto
  then show ?thesis unfolding v by (simp add: normalize_idem)
qed

text \<open>
  For a map the code has built, the guard on blank markup never fires: the markup of a
  unit ends with the \<open>>\<close> of its closing tag. The loop writes the value of the map followed
  by a newline.
\<close>

lemma replacement_built:
  assumes "line_translation_map content = Inr m"
  shows "replacement m n =
           (if n = - 1 then None else map_option (\<lambda>mapped. mapped @ [10]) (m n))"
proof (cases "m n")
  case None
  then show ?thesis by (simp add: replacement_def)
next
  case (Some v)
  from map_value_last[OF assms Some] have v: "v \<noteq> []" "last v = 62"
    "normalize_data_line_attribute v = v" by auto
  have "last v \<in> set v" using v(1) by simp
  moreover have "\<not> is_space (last v)" by (simp add: v(2) is_space_def)
  ultimately have "strip v \<noteq> []" by (rule strip_not_Nil)
  with Some v show ?thesis by (simp add: replacement_def with_newline_def)
qed

lemma replacement_newline:
  assumes "line_translation_map content = Inr m" "replacement m n = Some new"
  shows "\<exists>v. new = v @ [10] \<and> v \<noteq> [] \<and> last v = 62"
proof -
  from assms(2) obtain mapped where m: "m n = Some mapped" and new: "new = mapped @ [10]"
    by (auto simp: replacement_built[OF assms(1)] split: if_splits)
  from map_value_last[OF assms(1) m] show ?thesis unfolding new by simp
qed


lemma universal_newlines_id: "13 \<notin> set s \<Longrightarrow> universal_newlines s = s"
  by (induction s rule: universal_newlines.induct) auto

lemma universal_newlines_no_cr: "13 \<notin> set (universal_newlines s)"
  by (induction s rule: universal_newlines.induct) auto

lemma split_lines_nl:
  "10 \<notin> set t \<Longrightarrow> split_lines cur (t @ 10 # r) = (cur @ t @ [10]) # split_lines [] r"
  by (induction t arbitrary: cur) auto

lemma split_lines_no_nl:
  "10 \<notin> set t \<Longrightarrow> split_lines cur t = (if cur @ t = [] then [] else [cur @ t])"
  by (induction t arbitrary: cur) auto

lemma doc_ok_tail: "doc_ok (l # ls) \<Longrightarrow> doc_ok ls"
  by (cases ls) (auto simp: doc_ok_def)

lemma split_lines_concat: "doc_ok ls \<Longrightarrow> split_lines [] (concat ls) = ls"
proof (induction ls)
  case Nil
  then show ?case by simp
next
  case (Cons l ls)
  from Cons.prems have l: "l \<noteq> []" "10 \<notin> set (butlast l)"
    by (auto simp: doc_ok_def single_line_def)
  then have bl: "l = butlast l @ [last l]" by simp
  show ?case
  proof (cases "last l = 10")
    case True
    have e: "butlast l @ [10] = l"
      using append_butlast_last_id[OF l(1)] True by simp
    have "concat (l # ls) = (butlast l @ [10]) @ concat ls"
      by (simp only: e concat.simps)
    then have c: "concat (l # ls) = butlast l @ 10 # concat ls" by simp
    have "split_lines [] (concat (l # ls)) = ([] @ butlast l @ [10]) # split_lines [] (concat ls)"
      unfolding c by (rule split_lines_nl[OF l(2)])
    also have "[] @ butlast l @ [10] = l" using e by simp
    also have "split_lines [] (concat ls) = ls"
      using Cons.IH doc_ok_tail[OF Cons.prems] by simp
    finally show ?thesis .
  next
    case False
    have ls: "ls = []"
    proof (rule ccontr)
      assume "ls \<noteq> []"
      then have "l \<in> set (butlast (l # ls))" by simp
      with Cons.prems False show False by (auto simp: doc_ok_def)
    qed
    have "set l = set (butlast l) \<union> {last l}"
      using append_butlast_last_id[OF l(1)] by (metis set_append list.simps(15) list.set(1))
    then have "10 \<notin> set l" using l(2) False by auto
    from split_lines_no_nl[OF this, of "[]"] l(1) ls show ?thesis by simp
  qed
qed

lemma readlines_writelines: "doc_ok ls \<Longrightarrow> readlines (writelines ls) = ls"
proof -
  assume ok: "doc_ok ls"
  then have "13 \<notin> set (concat ls)" by (auto simp: doc_ok_def single_line_def)
  then show ?thesis
    by (simp add: readlines_def writelines_def universal_newlines_id split_lines_concat[OF ok])
qed

lemma split_lines_shape:
  "10 \<notin> set cur \<Longrightarrow>
     (\<forall>l\<in>set (split_lines cur s). l \<noteq> [] \<and> 10 \<notin> set (butlast l) \<and> set l \<subseteq> set cur \<union> set s) \<and>
     (\<forall>l\<in>set (butlast (split_lines cur s)). last l = 10)"
proof (induction s arbitrary: cur)
  case Nil
  then show ?case by (auto simp: butlast_append dest: in_set_butlastD)
next
  case (Cons c s)
  show ?case
  proof (cases "c = 10")
    case True
    have ih: "(\<forall>l\<in>set (split_lines [] s). l \<noteq> [] \<and> 10 \<notin> set (butlast l) \<and> set l \<subseteq> set [] \<union> set s) \<and>
       (\<forall>l\<in>set (butlast (split_lines [] s)). last l = 10)"
      by (rule Cons.IH) simp
    show ?thesis using True ih Cons.prems by (auto simp: butlast_append)
  next
    case False
    have "10 \<notin> set (cur @ [c])" using False Cons.prems by simp
    from Cons.IH[OF this] False show ?thesis by auto
  qed
qed

lemma readlines_ok: "doc_ok (readlines content)"
proof -
  have "10 \<notin> set ([]::pystr)" by simp
  from split_lines_shape[OF this, of "universal_newlines content"]
    universal_newlines_no_cr[of content]
  show ?thesis
    by (auto simp: doc_ok_def single_line_def readlines_def)
qed

lemma doc_ok_update:
  assumes "doc_ok ls" "l \<noteq> []" "single_line l" "last l = 10"
  shows "doc_ok (ls[i := l])"
proof -
  have 1: "set (ls[i := l]) \<subseteq> insert l (set ls)" by (rule set_update_subset_insert)
  have 2: "set (butlast (ls[i := l])) \<subseteq> insert l (set (butlast ls))"
    by (auto simp: butlast_list_update dest: subsetD[OF set_update_subset_insert])
  have a: "\<forall>x\<in>set (ls[i := l]). x \<noteq> [] \<and> single_line x"
    using 1 assms by (auto simp: doc_ok_def)
  have b: "\<forall>x\<in>set (butlast (ls[i := l])). last x = 10"
    using 2 assms by (auto simp: doc_ok_def)
  from a b show ?thesis by (simp add: doc_ok_def)
qed

lemma replacement_shape: "replacement m n = Some new \<Longrightarrow> new \<noteq> [] \<and> last new = 10"
  by (auto simp: replacement_def with_newline_def split: option.splits if_splits)

lemma write_back_ok:
  assumes "doc_ok lines"
    and "\<forall>item\<in>set batch. \<forall>new. replacement m (snd (snd item)) = Some new \<longrightarrow> single_line new"
  shows "doc_ok (foldl (write_back m) lines batch)"
  using assms
proof (induction batch arbitrary: lines)
  case Nil
  then show ?case by simp
next
  case (Cons item batch)
  have "doc_ok (write_back m lines item)"
  proof (cases "replacement m (snd (snd item))")
    case None
    with Cons.prems(1) show ?thesis by (simp add: write_back_def)
  next
    case (Some new)
    with Cons.prems(2) have "single_line new" by simp
    with replacement_shape[OF Some] Cons.prems(1) Some show ?thesis
      by (simp add: write_back_def doc_ok_update)
  qed
  moreover have "\<forall>item\<in>set batch. \<forall>new. replacement m (snd (snd item)) = Some new \<longrightarrow> single_line new"
    using Cons.prems(2) by simp
  ultimately show ?case using Cons.IH by simp
qed

lemma sample_two_lines:
  "extract_text_from_tags (sample_reply_two_lines @ [10]) = [0x7532, 10, 0x4E59]"
  "\<not> residue_jp [0x7532, 10, 0x4E59]"
  by (simp_all add: sample_reply_two_lines_def sample_open_def sample_close_def
        char_ev text_ev ptag_ev lang_ev)

lemma sample_replacement:
  "replacement sample_map_kana 1 = Some (sample_reply_kana @ [10])"
  "replacement sample_map_two_lines 1 = Some (sample_reply_two_lines @ [10])"
  by (simp_all add: replacement_def sample_map_kana_def sample_map_two_lines_def
        sample_reply_normal sample_reply_shape with_newline_def)


text \<open>
  A unit with an empty payload is not blank markup: it passes the guard, no source
  language is detected in its payload, and it is counted as success and written.
\<close>

lemma sample_blank_payload:
  "line_translation_map sample_reply_blank = Inr sample_map_blank"
  "extract_text_from_tags (sample_reply_blank @ [10]) = []"
  "reinsert residue_jp sample_map_blank sample_batch (sample_doc, 0, 0) =
     ([sample_reply_blank @ [10]], 1, 0)"
proof -
  have u: "ptag_finditer sample_reply_blank = [(py ''1'', sample_reply_blank)]"
    by (simp add: sample_reply_blank_def sample_open_def sample_close_def char_ev attr_ev ptag_ev)
  have n: "normalize_data_line_attribute sample_reply_blank = sample_reply_blank"
    by (simp add: sample_reply_blank_def sample_open_def sample_close_def char_ev attr_ev)
  have t: "extract_text_from_tags (sample_reply_blank @ [10]) = []"
    by (simp add: sample_reply_blank_def sample_open_def sample_close_def char_ev ptag_ev)
  have s: "strip sample_reply_blank \<noteq> []" "last sample_reply_blank \<noteq> 10" "sample_reply_blank \<noteq> []"
    by (simp_all add: sample_reply_blank_def sample_open_def sample_close_def char_ev strip_def)
  have r: "\<not> residue_jp []"
    by (simp add: char_ev text_ev lang_ev)
  show "line_translation_map sample_reply_blank = Inr sample_map_blank"
    by (simp add: line_translation_map_def u sample_token n sample_map_blank_def)
  show "extract_text_from_tags (sample_reply_blank @ [10]) = []" by (rule t)
  show "reinsert residue_jp sample_map_blank sample_batch (sample_doc, 0, 0) =
     ([sample_reply_blank @ [10]], 1, 0)"
    by (simp add: sample_batch_def sample_map_blank_def n t s r with_newline_def sample_doc_def)
qed

section \<open>The claims\<close>

text \<open>
  Claim C1. For every pair of glossary entry lists \<open>A\<close> and \<open>B\<close>, \<open>merge_dictionaries\<close>
  returns a list that begins with every entry of \<open>A\<close>, unchanged and in order, and whose
  set of source terms is exactly the source terms of \<open>A\<close> united with the source terms of
  the entries of \<open>B\<close> that pass the validity check and whose source term is not a source
  term of \<open>A\<close>. The same holds for the English variant, with its key and its validity
  check.
\<close>

theorem merge_dictionaries_keeps_original:
  "take (length A) (merge_dictionaries A B) = A \<and>
   source_terms (py ''jp'') (merge_dictionaries A B) =
     source_terms (py ''jp'') A \<union>
     {j. \<exists>b\<in>set B. validate_translation_entry b \<and> b (py ''jp'') = Some j \<and>
                      j \<notin> source_terms (py ''jp'') A} \<and>
   take (length A) (merge_dictionaries_en A B) = A \<and>
   source_terms (py ''en'') (merge_dictionaries_en A B) =
     source_terms (py ''en'') A \<union>
     {j. \<exists>b\<in>set B. validate_translation_entry_en b \<and> b (py ''en'') = Some j \<and>
                      j \<notin> source_terms (py ''en'') A}"
  unfolding merge_dictionaries_def merge_dictionaries_en_def
  using merge_by_spec[where k = "py ''jp''" and valid = validate_translation_entry and A = A and B = B]
        merge_by_spec[where k = "py ''en''" and valid = validate_translation_entry_en and A = A and B = B]
  by blast

theorem merge_dictionaries_keeps_original_witness:
  "merge_dictionaries [sample_a] [sample_ka, sample_a2, sample_bad] = [sample_a, sample_ka] \<and>
   take (length [sample_a]) (merge_dictionaries [sample_a] [sample_ka, sample_a2, sample_bad]) =
     [sample_a] \<and>
   source_terms (py ''jp'') (merge_dictionaries [sample_a] [sample_ka, sample_a2, sample_bad]) =
     {[0x3042], [0x30AB, 32]} \<and>
   merge_dictionaries_en [sample_en] [sample_en2] = [sample_en]"
proof -
  have m: "merge_dictionaries [sample_a] [sample_ka, sample_a2, sample_bad] = [sample_a, sample_ka]"
    by (simp add: sample_ev char_ev text_ev entry_ev)
  have n: "merge_dictionaries_en [sample_en] [sample_en2] = [sample_en]"
    by (simp add: sample_ev char_ev text_ev entry_ev)
  have s: "source_terms (py ''jp'') [sample_a, sample_ka] = {[0x3042], [0x30AB, 32]}"
    by (simp add: sample_ev source_terms_def List.map_filter_simps py_def)
  from merge_dictionaries_keeps_original
         [of "[sample_a]" "[sample_ka, sample_a2, sample_bad]"] m n s
  show ?thesis by simp
qed

text \<open>
  Claim C2, as amended. For every document and every processed batch, reinsertion never
  changes the number of lines of the document nor their order, and only the content of
  lines of the batch whose identity token is bound in the translated map changes: a line
  counted as failed because it is missing from the translated map keeps its original
  markup in the document, whereas a line counted as failed because the source language is
  still detected in its payload is replaced by the translated markup, as a line counted as
  successfully translated is.

  Here the document is the one \<open>get_translation_lines\<close> has segmented, the batch is a slice
  of that segmentation, the map is the one built from a translated content, and \<open>lines\<close> is
  the in-memory document at the start of the batch.

  As stated the claim fails: a translated line whose payload is still kana is counted as
  failed and written into the document all the same.
\<close>

theorem reinsertion_failed_line_replaced_counterexample:
  "get_translation_lines sample_doc = Inr sample_batch \<and>
   line_translation_map sample_reply_kana = Inr sample_map_kana \<and>
   reinsert residue_jp sample_map_kana sample_batch (sample_doc, 0, 0) =
     ([sample_reply_kana @ [10]], 0, 1) \<and>
   [sample_reply_kana @ [10]] \<noteq> sample_doc"
proof -
  have "reinsert residue_jp sample_map_kana sample_batch (sample_doc, 0, 0) =
          ([sample_reply_kana @ [10]], 0, 1)"
    by (simp add: sample_batch_def sample_map_kana_def sample_reply_normal sample_reply_text
          sample_reply_shape sample_residue with_newline_def sample_doc_def)
  moreover have "[sample_reply_kana @ [10]] \<noteq> sample_doc"
    by (simp add: sample_doc_def sample_reply_kana_def sample_close_def py_def)
  ultimately show ?thesis using sample_doc_lines(1) sample_maps(1) by simp
qed

theorem reinsertion_frame_amended:
  assumes "get_translation_lines doc = Inr japanese_lines"
    and "line_translation_map translated_content = Inr m"
    and "length lines = length doc"
    and "batch = batch_of japanese_lines size_of_batch batch_idx"
    and "final = reinsert residue m batch (lines, s, f)"
  shows
    "length (fst final) = length lines \<and>
     (i \<notin> fst ` set batch \<longrightarrow> fst final ! i = lines ! i) \<and>
     ((idx, line, num) \<in> set batch \<longrightarrow>
        idx < length lines \<and>
        (num = - 1 \<or> m num = None \<longrightarrow> fst final ! idx = lines ! idx) \<and>
        (num \<noteq> - 1 \<and> m num = None \<longrightarrow>
           counted_failed residue m (idx, line, num) \<and>
           \<not> counted_success residue m (idx, line, num)) \<and>
        (num \<noteq> - 1 \<and> m num = Some mapped \<longrightarrow> fst final ! idx = mapped @ [10]) \<and>
        (num \<noteq> - 1 \<and> m num = Some mapped \<and>
         residue (extract_text_from_tags (mapped @ [10])) \<longrightarrow>
           counted_failed residue m (idx, line, num) \<and>
           \<not> counted_success residue m (idx, line, num)) \<and>
        (counted_success residue m (idx, line, num) \<longrightarrow> num \<noteq> - 1 \<and> m num \<noteq> None)) \<and>
     snd final =
       (s + length (filter (counted_success residue m) batch),
        f + length (filter (counted_failed residue m) batch))"
proof -
  note rb = replacement_built[OF assms(2)]
  have seg: "translation_lines_from needs_translation 0 doc = Inr japanese_lines"
    using assms(1) by (simp add: get_translation_lines_def)
  have dist: "distinct (map fst batch)"
    unfolding assms(4) by (rule batch_of_distinct) (rule translation_lines_from_distinct[OF seg])
  have fin: "fst final = foldl (write_back m) lines batch"
    "snd final =
       (s + length (filter (counted_success residue m) batch),
        f + length (filter (counted_failed residue m) batch))"
    unfolding assms(5) by (simp_all add: reinsert_fold)
  have len: "length (fst final) = length lines"
    unfolding fin(1) by (rule write_back_length)
  have out: "i \<notin> fst ` set batch \<longrightarrow> fst final ! i = lines ! i"
    unfolding fin(1) by (simp add: write_back_outside)
  have item: "idx < length lines \<and>
        (num = - 1 \<or> m num = None \<longrightarrow> fst final ! idx = lines ! idx) \<and>
        (num \<noteq> - 1 \<and> m num = None \<longrightarrow>
           counted_failed residue m (idx, line, num) \<and>
           \<not> counted_success residue m (idx, line, num)) \<and>
        (num \<noteq> - 1 \<and> m num = Some mapped \<longrightarrow> fst final ! idx = mapped @ [10]) \<and>
        (num \<noteq> - 1 \<and> m num = Some mapped \<and>
         residue (extract_text_from_tags (mapped @ [10])) \<longrightarrow>
           counted_failed residue m (idx, line, num) \<and>
           \<not> counted_success residue m (idx, line, num)) \<and>
        (counted_success residue m (idx, line, num) \<longrightarrow> num \<noteq> - 1 \<and> m num \<noteq> None)"
    if mem: "(idx, line, num) \<in> set batch"
  proof -
    from mem have "(idx, line, num) \<in> set japanese_lines"
      unfolding assms(4) using batch_of_subset by blast
    from translation_lines_from_item[OF seg this] have range: "idx < length lines"
      by (simp add: assms(3))
    have at: "fst final ! idx = (case replacement m num of None \<Rightarrow> lines ! idx | Some new \<Rightarrow> new)"
      unfolding fin(1) using dist mem range by (rule write_back_at)
    show ?thesis
      using range at
      by (auto simp: rb counted_failed_def counted_success_def split: option.splits)
  qed
  from len out item fin(2) show ?thesis by blast
qed

theorem reinsertion_frame_amended_witness:
  "get_translation_lines sample_doc_two = Inr sample_batch \<and>
   line_translation_map sample_reply_kana = Inr sample_map_kana \<and>
   line_translation_map [] = Inr sample_map_none \<and>
   batch_of sample_batch 20 0 = sample_batch \<and>
   length (fst (reinsert residue_jp sample_map_kana sample_batch (sample_doc_two, 0, 0))) = 2 \<and>
   fst (reinsert residue_jp sample_map_kana sample_batch (sample_doc_two, 0, 0)) ! 1 =
     sample_doc_two ! 1 \<and>
   fst (reinsert residue_jp sample_map_kana sample_batch (sample_doc_two, 0, 0)) ! 0 =
     sample_reply_kana @ [10] \<and>
   counted_failed residue_jp sample_map_kana (0, sample_doc_two ! 0, 1) \<and>
   snd (reinsert residue_jp sample_map_kana sample_batch (sample_doc_two, 0, 0)) = (0, 1) \<and>
   fst (reinsert residue_jp sample_map_none sample_batch (sample_doc_two, 0, 0)) ! 0 =
     sample_doc_two ! 0 \<and>
   counted_failed residue_jp sample_map_none (0, sample_doc_two ! 0, 1)"
proof -
  have b: "batch_of sample_batch 20 0 = sample_batch"
    by (simp add: batch_of_def sample_batch_def)
  have none: "line_translation_map [] = Inr sample_map_none"
    by (simp add: line_translation_map_def sample_map_none_def)
  have l0: "sample_doc_two ! 0 = sample_open @ [0x3042] @ sample_close @ [10]"
    by (simp add: sample_doc_two_def)
  have mem: "(0, sample_doc_two ! 0, 1) \<in> set sample_batch" "1 \<notin> fst ` set sample_batch"
    by (simp_all add: sample_batch_def l0)
  have m: "sample_map_kana 1 = Some sample_reply_kana" "sample_map_none 1 = None"
    by (simp_all add: sample_map_kana_def sample_map_none_def)
  have res: "residue_jp (extract_text_from_tags (sample_reply_kana @ [10]))"
    by (simp add: sample_reply_text sample_residue)
  have len: "length sample_doc_two = 2" by (simp add: sample_doc_two_def)
  note kana = reinsertion_frame_amended
    [where doc = sample_doc_two and japanese_lines = sample_batch
       and translated_content = sample_reply_kana and m = sample_map_kana
       and lines = sample_doc_two and batch = sample_batch and size_of_batch = 20
       and batch_idx = 0 and residue = residue_jp and s = 0 and f = 0
       and final = "reinsert residue_jp sample_map_kana sample_batch (sample_doc_two, 0, 0)"
       and i = 1 and idx = 0 and line = "sample_doc_two ! 0" and num = 1
       and mapped = sample_reply_kana,
     OF sample_doc_lines(2) sample_maps(1) refl b[symmetric] refl]
  note missing = reinsertion_frame_amended
    [where doc = sample_doc_two and japanese_lines = sample_batch
       and translated_content = "[]" and m = sample_map_none
       and lines = sample_doc_two and batch = sample_batch and size_of_batch = 20
       and batch_idx = 0 and residue = residue_jp and s = 0 and f = 0
       and final = "reinsert residue_jp sample_map_none sample_batch (sample_doc_two, 0, 0)"
       and i = 1 and idx = 0 and line = "sample_doc_two ! 0" and num = 1
       and mapped = sample_reply_kana,
     OF sample_doc_lines(2) none refl b[symmetric] refl]
  have cf: "counted_failed residue_jp sample_map_kana (0, sample_doc_two ! 0, 1)"
    "\<not> counted_success residue_jp sample_map_kana (0, sample_doc_two ! 0, 1)"
    using kana mem m res by simp_all
  have cf': "counted_failed residue_jp sample_map_none (0, sample_doc_two ! 0, 1)"
    using missing mem m by simp
  have flt: "length (filter (counted_success residue_jp sample_map_kana) sample_batch) = 0"
    "length (filter (counted_failed residue_jp sample_map_kana) sample_batch) = 1"
    using cf by (simp_all add: sample_batch_def l0)
  from kana have "snd (reinsert residue_jp sample_map_kana sample_batch (sample_doc_two, 0, 0)) =
       (0 + length (filter (counted_success residue_jp sample_map_kana) sample_batch),
        0 + length (filter (counted_failed residue_jp sample_map_kana) sample_batch))"
    by blast
  then have cnt: "snd (reinsert residue_jp sample_map_kana sample_batch (sample_doc_two, 0, 0)) = (0, 1)"
    by (simp only: flt add_0)
  from kana mem len
  have a1: "length (fst (reinsert residue_jp sample_map_kana sample_batch (sample_doc_two, 0, 0))) = 2"
    and a2: "fst (reinsert residue_jp sample_map_kana sample_batch (sample_doc_two, 0, 0)) ! 1 =
       sample_doc_two ! 1"
    by simp_all
  from kana mem m
  have a3: "fst (reinsert residue_jp sample_map_kana sample_batch (sample_doc_two, 0, 0)) ! 0 =
       sample_reply_kana @ [10]"
    by simp
  from missing mem m
  have a4: "fst (reinsert residue_jp sample_map_none sample_batch (sample_doc_two, 0, 0)) ! 0 =
       sample_doc_two ! 0"
    by simp
  from sample_doc_lines(2) sample_maps(1) none b a1 a2 a3 cf(1) cnt a4 cf'
  show ?thesis by (intro conjI)
qed

text \<open>
  Claim C3. The Relevance Selector is to return no two entries with the same source term,
  and at least \<open>min(targetCount, number of valid distinct glossary entries)\<close> entries.
  \<open>select_relevant_translations\<close> tracks the terms it has used in \<open>seen_jp\<close> in
  both passes, but the list \<open>remaining\<close> it draws the padding from is not
  de-duplicated, and the terms are compared trimmed while the glossary keeps them as
  written. At a glossary of two valid entries with the one source term, neither occurring
  in the batch, every draw returns both entries. At a glossary of two valid entries whose
  source terms differ by a trailing space, with a batch that contains the term, it returns
  one entry where the claim asks for two.
\<close>

theorem relevance_selector_at_failing_input:
  "validate_translation_entry sample_a \<and> validate_translation_entry sample_a2 \<and>
   source_term (py ''jp'') sample_a = source_term (py ''jp'') sample_a2 \<and>
   length (select_relevant_translations rnd [sample_line] [sample_a, sample_a2] 5) = 2 \<and>
   set (select_relevant_translations rnd [sample_line] [sample_a, sample_a2] 5)
     \<subseteq> {sample_a, sample_a2} \<and>
   \<not> distinct (map (source_term (py ''jp''))
         (select_relevant_translations rnd [sample_line] [sample_a, sample_a2] 5)) \<and>
   validate_translation_entry sample_a_space \<and>
   source_term (py ''jp'') sample_a \<noteq> source_term (py ''jp'') sample_a_space \<and>
   select_relevant_translations rnd [sample_open @ [0x3042] @ sample_close @ [10]]
     [sample_a, sample_a_space] 5 = [sample_a]"
proof -
  have ns: "\<not> is_substr [0x3042] sample_line" "\<not> is_substr [0x3042] [120]"
    by (simp_all add: sample_line_def py_def)
  have sel: "select_relevant_translations rnd [sample_line] [sample_a, sample_a2] 5 =
          random_sample rnd [sample_a, sample_a2] 2"
    using ns
    by (simp add: select_relevant_translations_def remaining_entries_def sample_valid
          sample_jp_value sample_line_text)
  have len: "length (random_sample rnd [sample_a, sample_a2] 2) = 2"
    by (rule random_sample_length) simp
  have sub: "set (random_sample rnd [sample_a, sample_a2] 2) \<subseteq> {sample_a, sample_a2}"
    using random_sample_subset[of rnd "[sample_a, sample_a2]" 2] by simp
  have same: "source_term (py ''jp'') sample_a = source_term (py ''jp'') sample_a2"
    by (simp add: source_term_def sample_a_def sample_a2_def py_def)
  obtain x y where xy: "random_sample rnd [sample_a, sample_a2] 2 = [x, y]"
    using len by (auto simp: length_Suc_conv numeral_2_eq_2)
  with sub have "x \<in> {sample_a, sample_a2}" "y \<in> {sample_a, sample_a2}" by auto
  with same have "source_term (py ''jp'') x = source_term (py ''jp'') y" by auto
  then have dup: "\<not> distinct (map (source_term (py ''jp'')) (random_sample rnd [sample_a, sample_a2] 2))"
    by (simp add: xy)
  have diff: "source_term (py ''jp'') sample_a \<noteq> source_term (py ''jp'') sample_a_space"
    by (simp add: source_term_def sample_a_def sample_a_space_def py_def)
  have tx: "extract_text_from_tags (sample_open @ 0x3042 # sample_close @ [10]) = [0x3042]"
    by (simp add: sample_open_def sample_close_def char_ev match_p_text_def after_gt_def)
  have one: "select_relevant_translations rnd [sample_open @ [0x3042] @ sample_close @ [10]]
     [sample_a, sample_a_space] 5 = [sample_a]"
    by (simp add: select_relevant_translations_def remaining_entries_def sample_valid
          sample_jp_value tx Let_def)
  from sample_valid sel len sub same dup diff one show ?thesis by simp
qed

text \<open>
  Claim C7. Identity-attribute normalization is idempotent: for every string, applying
  \<open>normalize_data_line_attribute\<close> to its own output yields the same string. And for every
  text the tolerant pattern accepts as a whole (whatever the case of the name, the white
  space around \<open>=\<close>, and with plain, single or backslash-escaped quotes), it yields the
  canonical unescaped double-quote form \<open>data-line="N"\<close> with the same digits \<open>N\<close>.
\<close>

theorem normalize_idempotent_and_canonical:
  "normalize_data_line_attribute (normalize_data_line_attribute s) =
     normalize_data_line_attribute s \<and>
   (match_attr t = Some (ds, []) \<longrightarrow> normalize_data_line_attribute t = canonical_attr ds)"
proof
  show "normalize_data_line_attribute (normalize_data_line_attribute s) =
     normalize_data_line_attribute s"
    by (rule normalize_idem)
  show "match_attr t = Some (ds, []) \<longrightarrow> normalize_data_line_attribute t = canonical_attr ds"
  proof
    assume m: "match_attr t = Some (ds, [])"
    then obtain c cs where t: "t = c # cs"
      by (cases t) (auto simp: match_attr_def lit_data_line)
    from m show "normalize_data_line_attribute t = canonical_attr ds"
      unfolding t by simp
  qed
qed

theorem normalize_idempotent_and_canonical_witness:
  "match_attr (py ''DATA-Line = '' @ [92, 39] @ py ''42'' @ [92, 39]) = Some (py ''42'', []) \<and>
   normalize_data_line_attribute (py ''DATA-Line = '' @ [92, 39] @ py ''42'' @ [92, 39]) =
     py ''data-line='' @ [34] @ py ''42'' @ [34] \<and>
   normalize_data_line_attribute (normalize_data_line_attribute (py ''x data-line=7y'')) =
     py ''x data-line='' @ [34, 55, 34, 121]"
proof -
  have m: "match_attr (py ''DATA-Line = '' @ [92, 39] @ py ''42'' @ [92, 39]) = Some (py ''42'', [])"
    by (simp add: char_ev attr_ev)
  have n: "normalize_data_line_attribute (py ''x data-line=7y'') = py ''x data-line='' @ [34, 55, 34, 121]"
    by (simp add: char_ev attr_ev)
  from normalize_idempotent_and_canonical
    [of "py ''x data-line=7y''" "py ''DATA-Line = '' @ [92, 39] @ py ''42'' @ [92, 39]" "py ''42''"] m n
  show ?thesis by (simp add: canonical_attr_def)
qed

text \<open>
  Claim C9. For every translated content in which one or more translated line units carry
  the identity token \<open>n\<close> (in particular two or more), the map used for reinsertion binds
  \<open>n\<close> to the last such unit of the text, normalised; the earlier ones are discarded.
  The token of a unit is what \<open>int\<close> makes of its line number. A map is built, and used for
  reinsertion, exactly when \<open>int\<close> accepts the line number of every unit, that is when none
  has more than 4300 digits; otherwise the loop that builds it raises \<open>ValueError\<close> and no
  reinsertion takes place.
\<close>

theorem translated_map_last_duplicate_wins:
  "(line_translation_map translated_content = Inr m \<and>
    filter (\<lambda>(ds, html). token_of ds = Inr n) (ptag_finditer translated_content) \<noteq> [] \<longrightarrow>
      m n = Some (normalize_data_line_attribute
        (snd (last (filter (\<lambda>(ds, html). token_of ds = Inr n)
                      (ptag_finditer translated_content)))))) \<and>
   ((\<exists>m. line_translation_map translated_content = Inr m) \<longleftrightarrow>
      (\<forall>unit\<in>set (ptag_finditer translated_content). length (fst unit) \<le> 4300)) \<and>
   (line_translation_map translated_content = Inl ValueError \<longleftrightarrow>
      (\<exists>unit\<in>set (ptag_finditer translated_content). 4300 < length (fst unit)))"
proof -
  have a: "line_translation_map translated_content = Inr m \<and>
    filter (\<lambda>(ds, html). token_of ds = Inr n) (ptag_finditer translated_content) \<noteq> [] \<longrightarrow>
      m n = Some (normalize_data_line_attribute
        (snd (last (filter (\<lambda>(ds, html). token_of ds = Inr n)
                      (ptag_finditer translated_content)))))"
    using line_translation_map_last[of translated_content m n] by simp
  have b: "(\<exists>m. line_translation_map translated_content = Inr m) \<longleftrightarrow>
      (\<forall>unit\<in>set (ptag_finditer translated_content). length (fst unit) \<le> 4300)"
    by (simp add: line_translation_map_def build_map_Inr int_max_str_digits_def)
  have c: "line_translation_map translated_content = Inl ValueError \<longleftrightarrow>
      (\<exists>unit\<in>set (ptag_finditer translated_content). 4300 < length (fst unit))"
    by (simp add: line_translation_map_def build_map_Inl int_max_str_digits_def)
  from a b c show ?thesis by blast
qed

theorem translated_map_last_duplicate_wins_witness:
  "(\<exists>m. line_translation_map sample_reply_dup = Inr m \<and>
        m 7 = Some (py ''<p data-line='' @ [34, 48, 55, 34, 62, 0x4E59] @ py ''</p>'')) \<and>
   filter (\<lambda>(ds, html). token_of ds = Inr 7) (ptag_finditer sample_reply_dup) =
     [(py ''7'', py ''<p data-line=7>'' @ [0x7532] @ py ''</p>''),
      (py ''07'', py ''<p data-line='' @ [34, 48, 55, 34, 62, 0x4E59] @ py ''</p>'')]"
proof -
  have f: "filter (\<lambda>(ds, html). token_of ds = Inr 7) (ptag_finditer sample_reply_dup) =
     [(py ''7'', py ''<p data-line=7>'' @ [0x7532] @ py ''</p>''),
      (py ''07'', py ''<p data-line='' @ [34, 48, 55, 34, 62, 0x4E59] @ py ''</p>'')]"
    unfolding sample_reply_dup_units by (simp add: sample_token)
  have n: "normalize_data_line_attribute (py ''<p data-line='' @ [34, 48, 55, 34, 62, 0x4E59] @ py ''</p>'') =
      py ''<p data-line='' @ [34, 48, 55, 34, 62, 0x4E59] @ py ''</p>''"
    by (simp add: char_ev attr_ev)
  have short: "\<forall>unit\<in>set (ptag_finditer sample_reply_dup). length (fst unit) \<le> 4300"
    unfolding sample_reply_dup_units by (simp add: py_def)
  from translated_map_last_duplicate_wins[of sample_reply_dup _ 7] short
  obtain m where m: "line_translation_map sample_reply_dup = Inr m" by blast
  from translated_map_last_duplicate_wins[of sample_reply_dup m 7] m f n
  have "m 7 = Some (py ''<p data-line='' @ [34, 48, 55, 34, 62, 0x4E59] @ py ''</p>'')"
    by simp
  with m f show ?thesis by blast
qed

text \<open>
  Claim C10, as amended. Every line the reinsertion loop writes into the in-memory document
  ends with exactly one trailing newline character: the mapped markup ends with the \<open>>\<close> of
  its closing tag and the newline is appended to it. And whenever none of the written lines
  holds another line break (a \<open>\n\<close> before its end, or a \<open>\r\<close>), the document, which was
  loaded by \<open>readlines\<close>, is still one document line per list entry: writing the
  concatenation of its entries and reading it back gives the same list.

  As stated the claim fails: a translated unit may span several lines (the pattern is
  compiled with \<open>re.DOTALL\<close>); it is written as one entry and comes back as two.
\<close>

theorem written_line_reloads_as_two_counterexample:
  "readlines (writelines sample_doc) = sample_doc \<and>
   get_translation_lines sample_doc = Inr sample_batch \<and>
   line_translation_map sample_reply_two_lines = Inr sample_map_two_lines \<and>
   readlines (writelines
     (fst (reinsert residue_jp sample_map_two_lines sample_batch (sample_doc, 0, 0)))) \<noteq>
   fst (reinsert residue_jp sample_map_two_lines sample_batch (sample_doc, 0, 0))"
proof -
  have r: "reinsert residue_jp sample_map_two_lines sample_batch (sample_doc, 0, 0) =
          ([sample_reply_two_lines @ [10]], 1, 0)"
    by (simp add: sample_batch_def sample_map_two_lines_def sample_reply_normal sample_two_lines
          sample_reply_shape with_newline_def sample_doc_def)
  have a: "readlines (writelines sample_doc) = sample_doc"
    by (simp add: readlines_def writelines_def sample_doc_def sample_open_def sample_close_def
          py_def)
  have b: "readlines (writelines [sample_reply_two_lines @ [10]]) =
       [sample_open @ [0x7532, 10], [0x4E59] @ sample_close @ [10]]"
    by (simp add: readlines_def writelines_def sample_reply_two_lines_def sample_open_def
          sample_close_def py_def)
  show ?thesis unfolding r fst_conv b using a sample_doc_lines(1) sample_maps(2) by simp
qed

theorem written_line_newline_amended:
  "(line_translation_map translated_content = Inr m \<and> replacement m num = Some new \<longrightarrow>
      (\<exists>v. new = v @ [10] \<and> v \<noteq> [] \<and> last v = 62)) \<and>
   doc_ok (readlines file_content) \<and>
   (doc_ok lines \<and>
    (\<forall>item\<in>set batch. \<forall>written. replacement m (snd (snd item)) = Some written \<longrightarrow>
        single_line written) \<longrightarrow>
      readlines (writelines (fst (reinsert residue m batch (lines, s, f)))) =
        fst (reinsert residue m batch (lines, s, f)))"
  using replacement_newline[of translated_content m num new] readlines_ok[of file_content]
    write_back_ok[of lines batch m, THEN readlines_writelines]
  by (simp add: reinsert_fold)

theorem written_line_newline_amended_witness:
  "line_translation_map sample_reply_kana = Inr sample_map_kana \<and>
   replacement sample_map_kana 1 = Some (sample_reply_kana @ [10]) \<and>
   last sample_reply_kana = 62 \<and>
   get_translation_lines sample_doc = Inr sample_batch \<and>
   readlines (writelines
     (fst (reinsert residue_jp sample_map_kana sample_batch (sample_doc, 0, 0)))) =
   fst (reinsert residue_jp sample_map_kana sample_batch (sample_doc, 0, 0))"
proof -
  note inst = written_line_newline_amended
    [of sample_reply_kana sample_map_kana 1 "sample_reply_kana @ [10]" "concat sample_doc"
        sample_doc sample_batch residue_jp 0 0]
  have ok: "doc_ok sample_doc"
    by (simp add: doc_ok_def single_line_def sample_doc_def sample_open_def sample_close_def py_def)
  have sl: "single_line (sample_reply_kana @ [10])"
    by (simp add: single_line_def sample_reply_kana_def sample_open_def sample_close_def py_def)
  have h: "\<forall>item\<in>set sample_batch. \<forall>written.
       replacement sample_map_kana (snd (snd item)) = Some written \<longrightarrow> single_line written"
    using sl by (simp add: sample_batch_def sample_replacement)
  from inst sample_maps(1) sample_replacement(1)
  have e: "\<exists>v. sample_reply_kana @ [10] = v @ [10] \<and> v \<noteq> [] \<and> last v = 62"
    by blast
  from inst ok h have rt: "readlines (writelines
     (fst (reinsert residue_jp sample_map_kana sample_batch (sample_doc, 0, 0)))) =
     fst (reinsert residue_jp sample_map_kana sample_batch (sample_doc, 0, 0))"
    by blast
  from e have "last sample_reply_kana = 62" by auto
  with sample_maps(1) sample_replacement(1) sample_doc_lines(1) rt show ?thesis by blast
qed

end
